theory Spec2Isabelle
  imports Complex_Main "HOL-Library.Char_ord" "HOL-Library.List_Lexorder"
begin

text \<open>
  A model of the resumable batch upscaler \<open>upscale_robust_nas_progress_cached.py\<close>: the
  scan of the output folders, the resolution of the missing frames, the partition into
  batches, the run over the input folders with the external transform as a parameter, the
  progress monitor's tick, and the cleanup on shutdown. The definitions come first, each
  after the function of the source it follows; the statements about them come after.
\<close>

section \<open>Strings\<close>

text \<open>
  File names are \<^typ>\<open>string\<close>s, ordered as Python orders \<open>str\<close>: character by character,
  a proper prefix first.

  \<open>str.lower()\<close> is modelled on the letters \<open>A\<close> .. \<open>Z\<close>. The program only ever asks whether
  a lowered name ends with \<open>.png\<close> or \<open>.jpg\<close>, and no character outside \<open>A\<close> .. \<open>Z\<close> lowers to
  one of the characters of these suffixes.
\<close>

definition lower_char :: "char \<Rightarrow> char" where
  "lower_char c =
     (case map_of (zip ''ABCDEFGHIJKLMNOPQRSTUVWXYZ'' ''abcdefghijklmnopqrstuvwxyz'') c of
        None \<Rightarrow> c
      | Some d \<Rightarrow> d)"

definition lower :: "string \<Rightarrow> string" where
  "lower s = map lower_char s"

definition endswith :: "string \<Rightarrow> string \<Rightarrow> bool" where
  "endswith s suf = (length suf \<le> length s \<and> drop (length s - length suf) s = suf)"

text \<open>\<open>name.lower().endswith(('.jpg', '.png'))\<close>\<close>

definition is_output_name :: "string \<Rightarrow> bool" where
  "is_output_name name = (endswith (lower name) ''.jpg'' \<or> endswith (lower name) ''.png'')"

text \<open>\<open>f.lower().endswith(".png")\<close>\<close>

definition is_source_name :: "string \<Rightarrow> bool" where
  "is_source_name f = endswith (lower f) ''.png''"

text \<open>
  \<open>str.rfind\<close> for a single character: the index of its last occurrence, if any.
\<close>

fun rfind :: "char \<Rightarrow> string \<Rightarrow> nat option" where
  "rfind c [] = None"
| "rfind c (x # xs) =
     (case rfind c xs of
        Some i \<Rightarrow> Some (Suc i)
      | None \<Rightarrow> if x = c then Some 0 else None)"

text \<open>
  \<open>os.path.splitext\<close> on a directory entry's name. Such a name holds no path separator, so
  the separator index of the library routine is \<open>-1\<close>: the name is split at its last dot,
  unless every character before that dot is a dot too (then the extension is empty).
\<close>

definition splitext :: "string \<Rightarrow> string \<times> string" where
  "splitext p =
     (case rfind (CHR ''.'') p of
        None \<Rightarrow> (p, [])
      | Some dotIndex \<Rightarrow>
          if list_ex (\<lambda>ch. ch \<noteq> CHR ''.'') (take dotIndex p)
          then (take dotIndex p, drop dotIndex p)
          else (p, []))"

section \<open>The file system\<close>

text \<open>
  A directory is the list of its entries, in the order \<open>os.scandir\<close> and \<open>os.listdir\<close>
  happen to enumerate them; an entry is a name and the size \<open>st_size\<close> of the file. The file
  system maps a directory's path to its entries, \<open>None\<close> where no such directory exists. A
  file is addressed by its directory and its name: \<open>os.path.join(folder, name)\<close> with a name
  free of separators.

  The store is quiescent: between two steps of the program nothing else changes it, and
  \<open>stat\<close> and \<open>getsize\<close> succeed on an entry that exists, so that the handlers of
  \<open>OSError\<close> around the scans are not branches of the model. \<open>os.remove\<close> can fail:
  see \<open>os_remove\<close> below.
\<close>

type_synonym path = string
type_synonym entry = "string \<times> nat"
type_synonym filesystem = "path \<Rightarrow> entry list option"

definition MIN_VALID_FILE_SIZE :: nat where
  "MIN_VALID_FILE_SIZE = 50 * 1024"

text \<open>\<open>not folder\<close> for a folder that is a string or \<open>None\<close>.\<close>

definition falsy :: "path option \<Rightarrow> bool" where
  "falsy folder = (case folder of None \<Rightarrow> True | Some f \<Rightarrow> f = [])"

definition path_exists :: "filesystem \<Rightarrow> path \<Rightarrow> bool" where
  "path_exists fs folder = (fs folder \<noteq> None)"

definition scandir :: "filesystem \<Rightarrow> path \<Rightarrow> entry list" where
  "scandir fs folder = (case fs folder of None \<Rightarrow> [] | Some es \<Rightarrow> es)"

definition listdir :: "filesystem \<Rightarrow> path \<Rightarrow> string list" where
  "listdir fs folder = map fst (scandir fs folder)"

definition file_exists :: "filesystem \<Rightarrow> path \<Rightarrow> string \<Rightarrow> bool" where
  "file_exists fs folder name = (name \<in> set (listdir fs folder))"

definition getsize :: "filesystem \<Rightarrow> path \<Rightarrow> string \<Rightarrow> nat option" where
  "getsize fs folder name = map_of (scandir fs folder) name"

definition remove_file :: "filesystem \<Rightarrow> path \<Rightarrow> string \<Rightarrow> filesystem" where
  "remove_file fs folder name =
     (case fs folder of
        None \<Rightarrow> fs
      | Some es \<Rightarrow> fs(folder := Some (filter (\<lambda>e. fst e \<noteq> name) es)))"

text \<open>
  \<open>os.remove\<close>. The operating system refuses to remove some files (a file still held open,
  a protected one); which ones is given by the predicate \<open>locked\<close> on a folder and a
  name. The call raises, here \<open>None\<close>, on such a file and on a file that is not there, and
  leaves the store as it is; otherwise the entry goes.
\<close>

definition os_remove ::
  "(path \<Rightarrow> string \<Rightarrow> bool) \<Rightarrow> filesystem \<Rightarrow> path \<Rightarrow> string \<Rightarrow> filesystem option" where
  "os_remove locked fs folder name =
     (if locked folder name \<or> \<not> file_exists fs folder name then None
      else Some (remove_file fs folder name))"

section \<open>Valid output files\<close>

text \<open>
  The loop of \<open>get_valid_output_basenames\<close> over the entries of the folder, with the set
  \<open>valid\<close> it builds.
\<close>

fun scan_valid :: "entry list \<Rightarrow> string set \<Rightarrow> string set" where
  "scan_valid [] valid = valid"
| "scan_valid ((name, st_size) # es) valid =
     (if is_output_name name
      then (if st_size \<ge> MIN_VALID_FILE_SIZE
            then scan_valid es (insert (fst (splitext name) @ ''.png'') valid)
            else scan_valid es valid)
      else scan_valid es valid)"

definition get_valid_output_basenames :: "filesystem \<Rightarrow> path option \<Rightarrow> string set" where
  "get_valid_output_basenames fs folder =
     (case folder of
        None \<Rightarrow> {}
      | Some f \<Rightarrow> if f = [] \<or> \<not> path_exists fs f then {} else scan_valid (scandir fs f) {})"

text \<open>The loop of \<open>count_valid_output_files\<close>.\<close>

fun scan_count :: "entry list \<Rightarrow> nat \<Rightarrow> nat" where
  "scan_count [] count = count"
| "scan_count ((name, st_size) # es) count =
     (if is_output_name name
      then (if st_size \<ge> MIN_VALID_FILE_SIZE
            then scan_count es (count + 1)
            else scan_count es count)
      else scan_count es count)"

definition count_valid_output_files :: "filesystem \<Rightarrow> path option \<Rightarrow> nat" where
  "count_valid_output_files fs folder =
     (case folder of
        None \<Rightarrow> 0
      | Some f \<Rightarrow> if f = [] \<or> \<not> path_exists fs f then 0 else scan_count (scandir fs f) 0)"

text \<open>
  What the specification calls a valid output file: an entry whose name carries one of the two
  accepted extensions, whatever the case of its letters, and whose size reaches the threshold.
\<close>

definition valid_output_file :: "entry \<Rightarrow> bool" where
  "valid_output_file e = (is_output_name (fst e) \<and> snd e \<ge> MIN_VALID_FILE_SIZE)"

definition normalized :: "string \<Rightarrow> string" where
  "normalized name = fst (splitext name) @ ''.png''"

section \<open>Counting and resolving\<close>

definition count_valid_output_files_union ::
  "filesystem \<Rightarrow> path option \<Rightarrow> path option \<Rightarrow> string set option \<Rightarrow> nat" where
  "count_valid_output_files_union fs local_folder nas_folder nas_cache_basenames =
     (let s = {} \<union> get_valid_output_basenames fs local_folder;
          s' = (if \<not> falsy nas_folder
                then (case nas_cache_basenames of
                        Some cache \<Rightarrow> s \<union> cache
                      | None \<Rightarrow> s \<union> get_valid_output_basenames fs nas_folder)
                else s)
      in card s')"

definition get_missing_frames ::
  "filesystem \<Rightarrow> path \<Rightarrow> path option \<Rightarrow> path option \<Rightarrow> string set option \<Rightarrow> string list" where
  "get_missing_frames fs src_folder local_folder nas_folder nas_cache_basenames =
     (if \<not> path_exists fs src_folder then []
      else
        let src_files = set (filter is_source_name (listdir fs src_folder));
            completed = {} \<union> get_valid_output_basenames fs local_folder;
            completed' = (if \<not> falsy nas_folder
                          then completed \<union>
                            (case nas_cache_basenames of
                               Some cache \<Rightarrow> cache
                             | None \<Rightarrow> get_valid_output_basenames fs nas_folder)
                          else completed);
            missing = src_files - completed'
        in sorted_list_of_set missing)"

text \<open>
  The specification's words for the same: the source names, and the completed set as the
  union of the primary location's valid names with the cache if one is provided, else with
  the secondary location's valid names.
\<close>

definition sourceBasenames :: "filesystem \<Rightarrow> path \<Rightarrow> string set" where
  "sourceBasenames fs sourceDir = {f \<in> set (listdir fs sourceDir). is_source_name f}"

definition spec_completed ::
  "filesystem \<Rightarrow> path option \<Rightarrow> path option \<Rightarrow> string set option \<Rightarrow> string set" where
  "spec_completed fs primaryOut secondaryOut secondaryCache =
     get_valid_output_basenames fs primaryOut \<union>
       (case secondaryCache of
          Some cache \<Rightarrow> cache
        | None \<Rightarrow> get_valid_output_basenames fs secondaryOut)"

section \<open>Cleaning up\<close>

text \<open>
  \<open>cleanup_incomplete_files\<close>: the inner loop over the two extensions, the outer loop over the
  files of the batch, and the guard in front of both. The number of removed files is carried
  along. Where \<open>getsize\<close> or \<open>remove\<close> raises, the source catches the exception, logs it
  and goes on with the next extension: the file stays and is not counted.
\<close>

fun cleanup_exts ::
  "(path \<Rightarrow> string \<Rightarrow> bool) \<Rightarrow> path \<Rightarrow> string \<Rightarrow> string list \<Rightarrow> filesystem \<times> nat
     \<Rightarrow> filesystem \<times> nat" where
  "cleanup_exts locked output_folder basename [] (fs, removed) = (fs, removed)"
| "cleanup_exts locked output_folder basename (ext # exts) (fs, removed) =
     (if file_exists fs output_folder (basename @ ext)
      then (case getsize fs output_folder (basename @ ext) of
              Some sz \<Rightarrow>
                if sz < MIN_VALID_FILE_SIZE
                then (case os_remove locked fs output_folder (basename @ ext) of
                        Some fs' \<Rightarrow>
                          cleanup_exts locked output_folder basename exts (fs', removed + 1)
                      | None \<Rightarrow>
                          cleanup_exts locked output_folder basename exts (fs, removed))
                else cleanup_exts locked output_folder basename exts (fs, removed)
            | None \<Rightarrow> cleanup_exts locked output_folder basename exts (fs, removed))
      else cleanup_exts locked output_folder basename exts (fs, removed))"

fun cleanup_batch ::
  "(path \<Rightarrow> string \<Rightarrow> bool) \<Rightarrow> path \<Rightarrow> string list \<Rightarrow> filesystem \<times> nat
     \<Rightarrow> filesystem \<times> nat" where
  "cleanup_batch locked output_folder [] acc = acc"
| "cleanup_batch locked output_folder (filename # batch_files) acc =
     cleanup_batch locked output_folder batch_files
       (cleanup_exts locked output_folder (fst (splitext filename)) [''.png'', ''.jpg''] acc)"

definition cleanup_incomplete_files ::
  "(path \<Rightarrow> string \<Rightarrow> bool) \<Rightarrow> filesystem \<Rightarrow> path option \<Rightarrow> string list
     \<Rightarrow> filesystem \<times> nat" where
  "cleanup_incomplete_files locked fs output_folder batch_files =
     (case output_folder of
        None \<Rightarrow> (fs, 0)
      | Some f \<Rightarrow>
          if f = [] \<or> \<not> path_exists fs f then (fs, 0)
          else cleanup_batch locked f batch_files (fs, 0))"

text \<open>
  \<open>cleanup_staging\<close>: every file of the listing is removed; a removal that raises is passed
  over.
\<close>

definition cleanup_staging ::
  "(path \<Rightarrow> string \<Rightarrow> bool) \<Rightarrow> filesystem \<Rightarrow> path \<Rightarrow> filesystem" where
  "cleanup_staging locked fs staging =
     (if path_exists fs staging
      then fold (\<lambda>f fs'. case os_remove locked fs' staging f of
                           Some fs'' \<Rightarrow> fs''
                         | None \<Rightarrow> fs')
             (listdir fs staging) fs
      else fs)"

section \<open>Configuration\<close>

definition WORK_DIR :: path where
  "WORK_DIR = ''D:/Video/Video_Rene_Zanelli''"

definition INPUT_DIRS :: "path list" where
  "INPUT_DIRS =
     [''INPUT_AI_video_rene_zanelli'', ''INPUT_AI_Zanelli_Ana_Miranda'', ''INPUT_AI_zanelli_2'']"

definition BATCH_SIZE :: nat where
  "BATCH_SIZE = 500"

definition NAS_BASE_DIR :: path where
  "NAS_BASE_DIR = ''Z:/zanelli''"

definition EMA_ALPHA :: real where
  "EMA_ALPHA = 3 / 10"

text \<open>
  \<open>os.path.join\<close> of a directory and a name. Which separator the platform puts between them
  plays no role: a path only identifies a directory of the store.
\<close>

definition path_join :: "path \<Rightarrow> string \<Rightarrow> path" where
  "path_join a b = a @ ''/'' @ b"

definition staging_dir :: path where
  "staging_dir = path_join WORK_DIR ''_STAGING_HARDLINKS''"

text \<open>\<open>str.replace\<close>: every occurrence, left to right, not overlapping.\<close>

function replace_from :: "string \<Rightarrow> string \<Rightarrow> string \<Rightarrow> string" where
  "replace_from old new [] = []"
| "replace_from old new (c # cs) =
     (if old \<noteq> [] \<and> take (length old) (c # cs) = old
      then new @ replace_from old new (drop (length old) (c # cs))
      else c # replace_from old new cs)"
  by pat_completeness auto
termination
  by (relation "measure (\<lambda>(old, new, s). length s)") auto

definition replace :: "string \<Rightarrow> string \<Rightarrow> string \<Rightarrow> string" where
  "replace s old new =
     (if old = [] then new @ concat (map (\<lambda>c. c # new) s) else replace_from old new s)"

definition nas_output_for_local_output :: "string \<Rightarrow> path option" where
  "nas_output_for_local_output local_output_folder_name =
     (if NAS_BASE_DIR = [] then None
      else Some (path_join NAS_BASE_DIR (replace local_output_folder_name ''UPSCALED'' ''OUTPUT'')))"

section \<open>The shared state\<close>

record monitor_state =
  running :: bool
  current_folder :: "string option"
  total_frames :: int
  output_folder_local :: "path option"
  output_folder_nas :: "path option"
  nas_cache_basenames :: "string set option"
  current_batch :: "string list"

definition initial_monitor_state :: monitor_state where
  "initial_monitor_state =
     \<lparr>running = True, current_folder = None, total_frames = 0, output_folder_local = None,
      output_folder_nas = None, nas_cache_basenames = None, current_batch = []\<rparr>"

definition update_folder ::
  "string \<Rightarrow> path \<Rightarrow> path option \<Rightarrow> int \<Rightarrow> monitor_state \<Rightarrow> monitor_state" where
  "update_folder folder_name out_local out_nas total_src st =
     st\<lparr>current_folder := Some folder_name, output_folder_local := Some out_local,
        output_folder_nas := out_nas, total_frames := total_src, current_batch := []\<rparr>"

definition set_nas_cache :: "string set option \<Rightarrow> monitor_state \<Rightarrow> monitor_state" where
  "set_nas_cache basenames_set st = st\<lparr>nas_cache_basenames := basenames_set\<rparr>"

definition set_current_batch :: "string list \<Rightarrow> monitor_state \<Rightarrow> monitor_state" where
  "set_current_batch batch_files st = st\<lparr>current_batch := batch_files\<rparr>"

definition clear_current_batch :: "monitor_state \<Rightarrow> monitor_state" where
  "clear_current_batch st = st\<lparr>current_batch := []\<rparr>"

text \<open>
  The external process, as the handle \<open>current_process\<close> shows it: still running
  (\<open>poll()\<close> is \<open>None\<close>), or gone.
\<close>

datatype process = Alive | Gone

text \<open>
  What the sequential program acts on: the shared state, the disk with the files the
  operating system refuses to remove, the process handle, and (for the statements below, not
  part of the program) the batches the external transform was called on, in order. The monitor thread's own counters are kept apart, in
  \<open>progress_daemon\<close> below; the run does not depend on them, and resetting them for a
  new folder is not part of the run's model.
\<close>

record world =
  mon :: monitor_state
  disk :: filesystem
  undeletable :: "path \<Rightarrow> string \<Rightarrow> bool"
  current_process :: "process option"
  invoked :: "string list list"

section \<open>Shutdown\<close>

text \<open>
  \<open>graceful_shutdown\<close>: clear the running flag, end the external process if it is alive,
  take the snapshot, empty the staging area, clean the batch in flight in the local output
  folder. The result is the world left behind and the status \<open>sys.exit\<close> is given.
\<close>

definition graceful_shutdown :: "world \<Rightarrow> world \<times> int" where
  "graceful_shutdown w =
     (let w1 = w\<lparr>mon := (mon w)\<lparr>running := False\<rparr>\<rparr>;
          w2 = (case current_process w1 of
                  Some Alive \<Rightarrow> w1\<lparr>current_process := Some Gone\<rparr>
                | _ \<Rightarrow> w1);
          state = mon w2;
          w3 = w2\<lparr>disk := cleanup_staging (undeletable w2) (disk w2) staging_dir\<rparr>;
          w4 = (if current_batch state \<noteq> []
                then w3\<lparr>disk := fst (cleanup_incomplete_files (undeletable w3) (disk w3)
                                       (output_folder_local state) (current_batch state))\<rparr>
                else w3)
      in (w4, 0))"

section \<open>The progress monitor\<close>

text \<open>
  The monitor's own counters, and what one tick reports. Python's floats are taken as real
  numbers: the statements below are about the formulas, not about rounding.
\<close>

record progress_daemon =
  avg_speed :: "real option"
  last_check_time :: real
  last_count :: int

record progress_report =
  current_count :: int
  remaining :: int
  percentage :: real
  eta_seconds :: "real option"
  reported_speed :: real

definition reset_for_new_folder :: "int \<Rightarrow> real \<Rightarrow> progress_daemon \<Rightarrow> progress_daemon" where
  "reset_for_new_folder initial_count now d =
     d\<lparr>last_count := initial_count, last_check_time := now, avg_speed := None\<rparr>"

text \<open>The update of \<open>_avg_speed\<close> inside \<open>check_progress\<close>.\<close>

definition update_avg_speed :: "real option \<Rightarrow> real \<Rightarrow> real" where
  "update_avg_speed prev instant_speed =
     (case prev of
        None \<Rightarrow> if instant_speed > 0 then instant_speed else 1 / 10
      | Some avg \<Rightarrow> EMA_ALPHA * instant_speed + (1 - EMA_ALPHA) * avg)"

text \<open>
  One tick at time \<open>now\<close>. A tick that returns early leaves the counters alone and reports
  nothing.
\<close>

definition check_progress ::
  "monitor_state \<Rightarrow> filesystem \<Rightarrow> real \<Rightarrow> progress_daemon
     \<Rightarrow> progress_daemon \<times> progress_report option" where
  "check_progress state fs now d =
     (case output_folder_local state of
        None \<Rightarrow> (d, None)
      | Some local_folder \<Rightarrow>
          if local_folder = [] \<or> \<not> path_exists fs local_folder then (d, None)
          else
            let total_src = total_frames state;
                count = int (count_valid_output_files_union fs (Some local_folder)
                          (output_folder_nas state) (nas_cache_basenames state));
                time_delta = now - last_check_time d;
                frame_delta = count - last_count d
            in if time_delta \<le> 0 then (d, None)
               else
                 let instant_speed = real_of_int frame_delta / time_delta;
                     avg = update_avg_speed (avg_speed d) instant_speed;
                     rem = (if total_src - count < 0 then 0 else total_src - count);
                     pct = (if total_src > 0
                            then (real_of_int count / real_of_int total_src) * 100 else 0);
                     eta = (if avg > 1 / 1000 then Some (real_of_int rem / avg) else None)
                 in (\<lparr>avg_speed = Some avg, last_check_time = now, last_count = count\<rparr>,
                     Some \<lparr>current_count = count, remaining = rem, percentage = pct,
                           eta_seconds = eta, reported_speed = avg\<rparr>))"

text \<open>
  Ticks that all see the same instantaneous speed: the average after the first tick, and
  after each further one.
\<close>

fun avg_after :: "real option \<Rightarrow> real \<Rightarrow> nat \<Rightarrow> real" where
  "avg_after prev v 0 = update_avg_speed prev v"
| "avg_after prev v (Suc n) = update_avg_speed (Some (avg_after prev v n)) v"

section \<open>Batches\<close>

text \<open>
  \<open>range(0, total_missing, BATCH_SIZE)\<close>, from the index \<open>i\<close> on, and the slice
  \<open>missing_files[i: j]\<close>.
\<close>

function batch_starts :: "nat \<Rightarrow> nat \<Rightarrow> nat list" where
  "batch_starts i total_missing =
     (if i < total_missing then i # batch_starts (i + BATCH_SIZE) total_missing else [])"
  by pat_completeness auto
termination
  by (relation "measure (\<lambda>(i, total_missing). total_missing - i)") (auto simp: BATCH_SIZE_def)

declare batch_starts.simps [simp del]

definition slice :: "'a list \<Rightarrow> nat \<Rightarrow> nat \<Rightarrow> 'a list" where
  "slice xs i j = take (j - i) (drop i xs)"

definition batches :: "string list \<Rightarrow> string list list" where
  "batches missing_files =
     map (\<lambda>i. slice missing_files i (i + BATCH_SIZE)) (batch_starts 0 (length missing_files))"

section \<open>The run\<close>

text \<open>
  Staging a batch: a stale entry of the same name is removed, then the source file is linked
  or copied into the staging area. Where the stale entry cannot be removed, the link fails on
  the name that is there and the copy that follows writes over it. Either way the staging
  area ends with one entry of that name, of the source's size. Where that cannot be done (the
  source file or the staging area is gone), the copy raises, nothing catches it, and the
  result is \<open>Inl\<close> of the disk at that point.
\<close>

fun stage_batch ::
  "(path \<Rightarrow> string \<Rightarrow> bool) \<Rightarrow> path \<Rightarrow> string list \<Rightarrow> filesystem
     \<Rightarrow> filesystem + filesystem" where
  "stage_batch locked input_folder [] fs = Inr fs"
| "stage_batch locked input_folder (filename # batch) fs =
     (let fs1 = (if file_exists fs staging_dir filename
                 then (case os_remove locked fs staging_dir filename of
                         Some fs' \<Rightarrow> fs'
                       | None \<Rightarrow> fs)
                 else fs)
      in case getsize fs1 input_folder filename of
           None \<Rightarrow> Inl fs1
         | Some sz \<Rightarrow>
             (case fs1 staging_dir of
                None \<Rightarrow> Inl fs1
              | Some staged \<Rightarrow>
                  stage_batch locked input_folder batch
                    (fs1(staging_dir :=
                       Some (filter (\<lambda>e. fst e \<noteq> filename) staged @ [(filename, sz)])))))"

text \<open>After the transform: the staged files of the batch are removed, those that can be.\<close>

fun unstage_batch ::
  "(path \<Rightarrow> string \<Rightarrow> bool) \<Rightarrow> string list \<Rightarrow> filesystem \<Rightarrow> filesystem" where
  "unstage_batch locked [] fs = fs"
| "unstage_batch locked (filename # batch) fs =
     unstage_batch locked batch
       (if file_exists fs staging_dir filename
        then (case os_remove locked fs staging_dir filename of
                Some fs' \<Rightarrow> fs'
              | None \<Rightarrow> fs)
        else fs)"

text \<open>
  The external transform is a parameter: started on the staging directory and the output
  directory, it either cannot be launched, or runs and exits with a code, leaving the disk in
  some state.
\<close>

datatype outcome = Launch_failed | Exited int filesystem

type_synonym transform = "path \<Rightarrow> path \<Rightarrow> filesystem \<Rightarrow> outcome"

text \<open>
  The loop over the batches of one folder. \<open>Inl\<close> is the world in which an exception left
  the loop uncaught, \<open>Inr\<close> the world after the loop. The exit code is logged when it is not
  zero, and nothing else depends on it.
\<close>

fun process_batches ::
  "transform \<Rightarrow> path \<Rightarrow> path \<Rightarrow> string list \<Rightarrow> nat list \<Rightarrow> world \<Rightarrow> world + world" where
  "process_batches tr input_folder out_local missing_files [] w = Inr w"
| "process_batches tr input_folder out_local missing_files (i # starts) w =
     (if \<not> running (mon w) then Inr w
      else
        let batch = slice missing_files i (i + BATCH_SIZE);
            w1 = w\<lparr>mon := set_current_batch batch (mon w)\<rparr>
        in case stage_batch (undeletable w1) input_folder batch (disk w1) of
             Inl fs' \<Rightarrow> Inl (w1\<lparr>disk := fs'\<rparr>)
           | Inr staged \<Rightarrow>
               (case tr staging_dir out_local staged of
                  Launch_failed \<Rightarrow>
                    Inr (w1\<lparr>disk := staged, invoked := invoked w1 @ [batch],
                             mon := (mon w1)\<lparr>running := False\<rparr>\<rparr>)
                | Exited returncode fs' \<Rightarrow>
                    process_batches tr input_folder out_local missing_files starts
                      (w1\<lparr>disk := unstage_batch (undeletable w1) batch fs',
                          invoked := invoked w1 @ [batch],
                          mon := clear_current_batch (mon w1)\<rparr>)))"

definition makedirs :: "filesystem \<Rightarrow> path \<Rightarrow> filesystem" where
  "makedirs fs folder = fs(folder := Some [])"

text \<open>
  The analysis of one folder: the world with the folder registered and the cache taken, and
  the missing files. The run has changed into \<open>WORK_DIR\<close>, and the folders are named
  relative to it; a path, relative or not, stands for one directory of the store.
\<close>

definition analyze_folder :: "path \<Rightarrow> world \<Rightarrow> world \<times> path \<times> string list" where
  "analyze_folder input_folder w =
     (let output_folder_local = replace input_folder ''INPUT_AI'' ''UPSCALED'';
          w1 = (if \<not> path_exists (disk w) output_folder_local
                then w\<lparr>disk := makedirs (disk w) output_folder_local\<rparr> else w);
          nas = nas_output_for_local_output output_folder_local;
          total_src_files = int (length (filter is_source_name (listdir (disk w1) input_folder)));
          w2 = w1\<lparr>mon := update_folder input_folder output_folder_local nas total_src_files
                           (mon w1)\<rparr>;
          nas_cache = (if \<not> falsy nas then get_valid_output_basenames (disk w2) nas else {});
          w3 = w2\<lparr>mon := set_nas_cache (Some nas_cache) (mon w2)\<rparr>;
          missing_files = get_missing_frames (disk w3) input_folder (Some output_folder_local)
                            nas (Some nas_cache)
      in (w3, output_folder_local, missing_files))"

fun process_folders :: "transform \<Rightarrow> path list \<Rightarrow> world \<Rightarrow> world + world" where
  "process_folders tr [] w = Inr w"
| "process_folders tr (input_folder # rest) w =
     (if \<not> running (mon w) then Inr w
      else if \<not> path_exists (disk w) input_folder then process_folders tr rest w
      else
        case analyze_folder input_folder w of
          (w3, out_local, missing_files) \<Rightarrow>
            if length missing_files = 0 then process_folders tr rest w3
            else
              (case process_batches tr input_folder out_local missing_files
                      (batch_starts 0 (length missing_files)) w3 of
                 Inl w' \<Rightarrow> Inl w'
               | Inr w' \<Rightarrow> process_folders tr rest w'))"

definition run_smart_upscaling :: "transform \<Rightarrow> world \<Rightarrow> world + world" where
  "run_smart_upscaling tr w =
     (let w0 = (if \<not> path_exists (disk w) staging_dir
                then w\<lparr>disk := makedirs (disk w) staging_dir\<rparr>
                else w\<lparr>disk := cleanup_staging (undeletable w) (disk w) staging_dir\<rparr>)
      in case process_folders tr INPUT_DIRS w0 of
           Inl w' \<Rightarrow> Inl w'
         | Inr w' \<Rightarrow> Inr (w'\<lparr>mon := (mon w')\<lparr>running := False\<rparr>\<rparr>))"

text \<open>The world at the start of a run, on a disk where every file can be removed.\<close>

definition initial_world :: "filesystem \<Rightarrow> world" where
  "initial_world fs =
     \<lparr>mon = initial_monitor_state, disk = fs, undeletable = (\<lambda>folder name. False),
      current_process = None, invoked = []\<rparr>"

text \<open>
  Two file systems hold the same files in a folder: the folder exists in both or in neither,
  and its entries are the same up to the order of enumeration.
\<close>

definition same_contents :: "filesystem \<Rightarrow> filesystem \<Rightarrow> path option \<Rightarrow> bool" where
  "same_contents fs fs' folder =
     (case folder of
        None \<Rightarrow> True
      | Some f \<Rightarrow> map_option set (fs f) = map_option set (fs' f))"

section \<open>What the cleanup is to leave\<close>

text \<open>
  The output names that correspond to the files of a batch, under either extension, and a
  directory listing without the entries of given names that are below the threshold.
\<close>

definition batch_outputs :: "string list \<Rightarrow> string set" where
  "batch_outputs batch_files =
     (\<Union>filename \<in> set batch_files.
        {fst (splitext filename) @ ''.png'', fst (splitext filename) @ ''.jpg''})"

definition purge_incomplete :: "string set \<Rightarrow> entry list \<Rightarrow> entry list" where
  "purge_incomplete names es =
     filter (\<lambda>e. \<not> (fst e \<in> names \<and> snd e < MIN_VALID_FILE_SIZE)) es"

section \<open>Example states\<close>

text \<open>
  The specification's example of a missing set: three source files, the first complete in the
  local output, the second complete in the secondary location, under the other extension.
\<close>

definition missing_set_example :: filesystem where
  "missing_set_example =
     (\<lambda>p. if p = ''src'' then Some [(''c.png'', 9), (''a.png'', 9), (''b.png'', 9)]
          else if p = ''out'' then Some [(''a.png'', 60000)]
          else if p = ''nas'' then Some [(''b.jpg'', 60000)]
          else None)"

text \<open>The same files, enumerated in another order.\<close>

definition missing_set_example_reordered :: filesystem where
  "missing_set_example_reordered =
     (\<lambda>p. if p = ''src'' then Some [(''a.png'', 9), (''b.png'', 9), (''c.png'', 9)]
          else if p = ''out'' then Some [(''a.png'', 60000)]
          else if p = ''nas'' then Some [(''b.jpg'', 60000)]
          else None)"

text \<open>The same source and local output, and a secondary location that holds nothing.\<close>

definition missing_set_example_empty_nas :: filesystem where
  "missing_set_example_empty_nas =
     (\<lambda>p. if p = ''src'' then Some [(''c.png'', 9), (''a.png'', 9), (''b.png'', 9)]
          else if p = ''out'' then Some [(''a.png'', 60000)]
          else if p = ''nas'' then Some []
          else None)"

text \<open>
  A tick after the counted files were taken away: ten files were counted when the folder was
  registered, none is left ten seconds later, and there is no average yet.
\<close>

definition emptied_state :: monitor_state where
  "emptied_state =
     \<lparr>running = True, current_folder = Some ''in'', total_frames = 10,
      output_folder_local = Some ''out'', output_folder_nas = None,
      nas_cache_basenames = None, current_batch = []\<rparr>"

definition emptied_fs :: filesystem where
  "emptied_fs = (\<lambda>p. if p = ''out'' then Some [] else None)"

definition emptied_daemon :: progress_daemon where
  "emptied_daemon = \<lparr>avg_speed = None, last_check_time = 0, last_count = 10\<rparr>"

text \<open>
  The specification's example of an estimate: 100 source files, 40 of them completed (here
  all in the cache of the secondary location), 20 of them since the last tick ten seconds
  ago, and an average of 2 files per second so far.
\<close>

definition forty_names :: "string set" where
  "forty_names = (\<lambda>n. replicate n (CHR ''f'') @ ''.png'') ` {1..40}"

definition eta_state :: monitor_state where
  "eta_state =
     \<lparr>running = True, current_folder = Some ''in'', total_frames = 100,
      output_folder_local = Some ''out'', output_folder_nas = Some ''nas'',
      nas_cache_basenames = Some forty_names, current_batch = []\<rparr>"

definition eta_daemon :: progress_daemon where
  "eta_daemon = \<lparr>avg_speed = Some 2, last_check_time = 0, last_count = 20\<rparr>"

text \<open>
  The specification's crash scenario: a batch of two files in flight, the output of the first
  complete in the local output folder, the output of the second truncated there, a third
  output complete in the secondary location only, and both source files staged.
\<close>

definition crash_world :: world where
  "crash_world =
     \<lparr>mon = \<lparr>running = True, current_folder = Some ''INPUT_AI_zanelli_2'', total_frames = 3,
             output_folder_local = Some ''UPSCALED_zanelli_2'',
             output_folder_nas = Some ''Z:/zanelli/OUTPUT_zanelli_2'',
             nas_cache_basenames = Some {''z.png''}, current_batch = [''x.png'', ''y.png'']\<rparr>,
      disk = (\<lambda>p. if p = ''UPSCALED_zanelli_2'' then Some [(''x.png'', 60000), (''y.png'', 100)]
                 else if p = ''Z:/zanelli/OUTPUT_zanelli_2'' then Some [(''z.png'', 70000)]
                 else if p = staging_dir then Some [(''x.png'', 9), (''y.png'', 9)]
                 else None),
      undeletable = (\<lambda>folder name. False),
      current_process = Some Alive, invoked = [[''x.png'', ''y.png'']]\<rparr>"

text \<open>
  The same scenario where the truncated output cannot be removed (the transform, just ended,
  still holds it).
\<close>

definition crash_world_held :: world where
  "crash_world_held =
     crash_world\<lparr>undeletable := (\<lambda>folder name. folder = ''UPSCALED_zanelli_2'' \<and> name = ''y.png'')\<rparr>"

text \<open>
  Two input folders with one source file each and nothing upscaled yet; a transform that
  exits with code 1 and writes nothing; a transform that cannot be launched.
\<close>

definition two_folders :: filesystem where
  "two_folders =
     (\<lambda>p. if p = ''INPUT_AI_video_rene_zanelli'' then Some [(''a.png'', 9)]
          else if p = ''INPUT_AI_Zanelli_Ana_Miranda'' then Some [(''b.png'', 9)]
          else None)"

definition failing_transform :: transform where
  "failing_transform = (\<lambda>input_dir output_dir fs. Exited 1 fs)"

definition unlaunchable_transform :: transform where
  "unlaunchable_transform = (\<lambda>input_dir output_dir fs. Launch_failed)"

section \<open>Valid output files: what the scan returns\<close>

lemma scan_valid_mem:
  "b \<in> scan_valid es valid \<longleftrightarrow>
     b \<in> valid \<or> (\<exists>e \<in> set es. valid_output_file e \<and> b = normalized (fst e))"
proof (induction es valid rule: scan_valid.induct)
  case (1 valid)
  show ?case by simp
next
  case (2 name st_size es valid)
  show ?case
  proof (cases "valid_output_file (name, st_size)")
    case True
    then have "scan_valid ((name, st_size) # es) valid = scan_valid es (insert (normalized name) valid)"
      by (simp add: valid_output_file_def normalized_def)
    moreover have "b \<in> scan_valid es (insert (normalized name) valid) \<longleftrightarrow>
        b \<in> insert (normalized name) valid \<or> (\<exists>e \<in> set es. valid_output_file e \<and> b = normalized (fst e))"
      using True 2(1) by (simp add: valid_output_file_def normalized_def)
    ultimately show ?thesis using True by auto
  next
    case False
    then have "scan_valid ((name, st_size) # es) valid = scan_valid es valid"
      by (auto simp: valid_output_file_def)
    moreover have "b \<in> scan_valid es valid \<longleftrightarrow>
        b \<in> valid \<or> (\<exists>e \<in> set es. valid_output_file e \<and> b = normalized (fst e))"
      using False 2(2,3) by (auto simp: valid_output_file_def)
    ultimately show ?thesis using False by auto
  qed
qed

lemma scan_valid_eq:
  "scan_valid es valid = valid \<union> (\<lambda>e. normalized (fst e)) ` {e \<in> set es. valid_output_file e}"
proof (rule set_eqI)
  fix b
  show "b \<in> scan_valid es valid \<longleftrightarrow>
      b \<in> valid \<union> (\<lambda>e. normalized (fst e)) ` {e \<in> set es. valid_output_file e}"
    unfolding scan_valid_mem by blast
qed

lemma scan_count_eq:
  "scan_count es count = count + length (filter valid_output_file es)"
  by (induction es count rule: scan_count.induct)
     (auto simp: valid_output_file_def)

lemma endswith_append: "endswith (s @ suf) suf"
  by (simp add: endswith_def)

lemma get_valid_output_basenames_eq:
  "get_valid_output_basenames fs folder =
     (if falsy folder then {}
      else (\<lambda>e. normalized (fst e)) ` {e \<in> set (scandir fs (the folder)). valid_output_file e})"
  by (auto simp: get_valid_output_basenames_def falsy_def scan_valid_eq path_exists_def scandir_def
           split: option.splits)

lemma finite_get_valid_output_basenames: "finite (get_valid_output_basenames fs folder)"
  by (simp add: get_valid_output_basenames_eq)

lemma same_contents_scandir:
  "same_contents fs fs' (Some f) \<Longrightarrow> set (scandir fs f) = set (scandir fs' f)"
  by (cases "fs f"; cases "fs' f") (simp_all add: same_contents_def scandir_def)

lemma same_contents_valid:
  "same_contents fs fs' folder \<Longrightarrow>
     get_valid_output_basenames fs folder = get_valid_output_basenames fs' folder"
  by (cases folder) (simp_all add: get_valid_output_basenames_eq falsy_def same_contents_scandir)

lemma rfind_last:
  "c \<notin> set ys \<Longrightarrow> rfind c (xs @ c # ys) = Some (length xs)"
proof (induction xs)
  case Nil
  have "rfind c ys = None" using Nil by (induction ys) auto
  then show ?case by simp
next
  case (Cons x xs)
  then show ?case by simp
qed

lemma splitext_stem:
  assumes "CHR ''.'' \<notin> set ext" and "\<exists>ch \<in> set stem. ch \<noteq> CHR ''.''"
  shows "splitext (stem @ CHR ''.'' # ext) = (stem, CHR ''.'' # ext)"
  using assms by (simp add: splitext_def rfind_last list_ex_iff)

text \<open>
  Claim C4. An output file counts as valid if and only if its name ends, whatever the case of
  its letters, with one of the two accepted extensions and its size is at least the threshold
  of 51200 bytes: the set of valid basenames holds exactly the normalized names of such
  entries, and the count of valid files is their number. A file one byte below the threshold
  is not valid, a file of exactly the threshold is, and every valid basename carries the
  extension \<open>.png\<close>.
\<close>

theorem valid_output_file_iff:
  assumes "fs folder = Some es" and "folder \<noteq> []"
  shows "(\<forall>b. b \<in> get_valid_output_basenames fs (Some folder) \<longleftrightarrow>
              (\<exists>e \<in> set es. valid_output_file e \<and> b = fst (splitext (fst e)) @ ''.png''))
       \<and> count_valid_output_files fs (Some folder) = length (filter valid_output_file es)
       \<and> (\<forall>name sz. valid_output_file (name, sz) \<longleftrightarrow>
              (endswith (lower name) ''.jpg'' \<or> endswith (lower name) ''.png'') \<and> sz \<ge> 51200)
       \<and> (\<forall>name. \<not> valid_output_file (name, MIN_VALID_FILE_SIZE - 1))
       \<and> (\<forall>name. is_output_name name \<longrightarrow> valid_output_file (name, MIN_VALID_FILE_SIZE))
       \<and> (\<forall>b \<in> get_valid_output_basenames fs (Some folder). endswith b ''.png'')"
proof -
  have g: "get_valid_output_basenames fs (Some folder) = scan_valid es {}"
    using assms by (simp add: get_valid_output_basenames_def path_exists_def scandir_def)
  have c: "count_valid_output_files fs (Some folder) = scan_count es 0"
    using assms by (simp add: count_valid_output_files_def path_exists_def scandir_def)
  have 1: "\<forall>b. b \<in> get_valid_output_basenames fs (Some folder) \<longleftrightarrow>
              (\<exists>e \<in> set es. valid_output_file e \<and> b = fst (splitext (fst e)) @ ''.png'')"
    by (simp add: g scan_valid_mem normalized_def)
  have 2: "count_valid_output_files fs (Some folder) = length (filter valid_output_file es)"
    by (simp add: c scan_count_eq)
  have 3: "\<forall>name sz. valid_output_file (name, sz) \<longleftrightarrow>
              (endswith (lower name) ''.jpg'' \<or> endswith (lower name) ''.png'') \<and> sz \<ge> 51200"
    by (simp add: valid_output_file_def is_output_name_def MIN_VALID_FILE_SIZE_def)
  have 4: "\<forall>name. \<not> valid_output_file (name, MIN_VALID_FILE_SIZE - 1)"
    by (simp add: valid_output_file_def MIN_VALID_FILE_SIZE_def)
  have 5: "\<forall>name. is_output_name name \<longrightarrow> valid_output_file (name, MIN_VALID_FILE_SIZE)"
    by (simp add: valid_output_file_def)
  have 6: "\<forall>b \<in> get_valid_output_basenames fs (Some folder). endswith b ''.png''"
    by (auto simp: g scan_valid_mem normalized_def endswith_append)
  show ?thesis
    using 1 2 3 4 5 6 by (intro conjI)
qed


theorem valid_output_file_iff_witness:
  "get_valid_output_basenames
      (\<lambda>p. if p = ''out'' then Some [(''a.JPG'', 51200), (''b.png'', 51199), (''c.txt'', 99999)]
            else None) (Some ''out'') = {''a.png''}
   \<and> count_valid_output_files
      (\<lambda>p. if p = ''out'' then Some [(''a.JPG'', 51200), (''b.png'', 51199), (''c.txt'', 99999)]
            else None) (Some ''out'') = 1"
proof -
  let ?es = "[(''a.JPG'', 51200), (''b.png'', 51199), (''c.txt'', 99999::nat)]"
  let ?fs = "\<lambda>p. if p = ''out'' then Some ?es else None"
  have h1: "?fs ''out'' = Some ?es" by simp
  have h2: "''out'' \<noteq> []" by simp
  have n: "fst (splitext ''a.JPG'') @ ''.png'' = ''a.png''"
    by (simp add: splitext_def)
  note t = valid_output_file_iff [of ?fs "''out''" ?es, OF h1 h2]
  have va: "valid_output_file (''a.JPG'', 51200)"
    by (simp add: valid_output_file_def is_output_name_def endswith_def lower_def lower_char_def
          MIN_VALID_FILE_SIZE_def)
  have vb: "\<not> valid_output_file (''b.png'', 51199)"
    by (simp add: valid_output_file_def MIN_VALID_FILE_SIZE_def)
  have vc: "\<not> valid_output_file (''c.txt'', 99999)"
    by (simp add: valid_output_file_def is_output_name_def endswith_def lower_def lower_char_def)
  have m: "\<forall>b. b \<in> get_valid_output_basenames ?fs (Some ''out'') \<longleftrightarrow>
          (\<exists>e \<in> set ?es. valid_output_file e \<and> b = fst (splitext (fst e)) @ ''.png'')"
    by (rule t [THEN conjunct1])
  have k: "count_valid_output_files ?fs (Some ''out'') = length (filter valid_output_file ?es)"
    by (rule t [THEN conjunct2, THEN conjunct1])
  have "get_valid_output_basenames ?fs (Some ''out'') = {''a.png''}"
    by (rule set_eqI) (simp add: m va vb vc n)
  moreover have "count_valid_output_files ?fs (Some ''out'') = 1"
    by (simp add: k va vb vc)
  ultimately show ?thesis by (rule conjI)
qed

section \<open>Resolving the missing files\<close>

lemma same_contents_exists:
  "same_contents fs fs' (Some f) \<Longrightarrow> path_exists fs f = path_exists fs' f"
  by (cases "fs f"; cases "fs' f") (simp_all add: same_contents_def path_exists_def)

lemma same_contents_listdir:
  "same_contents fs fs' (Some f) \<Longrightarrow> set (listdir fs f) = set (listdir fs' f)"
  by (simp add: listdir_def same_contents_scandir)

lemma same_contents_sources:
  "same_contents fs fs' (Some f) \<Longrightarrow> sourceBasenames fs f = sourceBasenames fs' f"
  by (simp add: sourceBasenames_def same_contents_listdir)

lemma sourceBasenames_missing: "\<not> path_exists fs f \<Longrightarrow> sourceBasenames fs f = {}"
  by (simp add: sourceBasenames_def listdir_def scandir_def path_exists_def)

lemma finite_sourceBasenames: "finite (sourceBasenames fs f)"
  by (simp add: sourceBasenames_def)

lemma get_missing_frames_eq:
  "get_missing_frames fs src_folder local_folder nas_folder cache =
     sorted_list_of_set (sourceBasenames fs src_folder -
       (get_valid_output_basenames fs local_folder \<union>
          (if falsy nas_folder then {}
           else case cache of
                  Some c \<Rightarrow> c
                | None \<Rightarrow> get_valid_output_basenames fs nas_folder)))"
proof (cases "path_exists fs src_folder")
  case False
  then show ?thesis
    by (simp add: get_missing_frames_def sourceBasenames_missing)
next
  case True
  have "set (filter is_source_name (listdir fs src_folder)) = sourceBasenames fs src_folder"
    by (auto simp: sourceBasenames_def)
  then show ?thesis
    using True by (simp add: get_missing_frames_def Let_def)
qed

lemma get_valid_falsy: "falsy folder \<Longrightarrow> get_valid_output_basenames fs folder = {}"
  by (simp add: get_valid_output_basenames_eq)

lemma nas_output_not_falsy: "\<not> falsy (nas_output_for_local_output name)"
  by (simp add: nas_output_for_local_output_def NAS_BASE_DIR_def falsy_def path_join_def)

text \<open>
  A cache that comes without a secondary folder is not consulted. The program never provides
  one: where it has no secondary folder, the cache it passes is empty.
\<close>

lemma get_missing_frames_spec:
  assumes "falsy nas_folder \<longrightarrow> cache = None \<or> cache = Some {}"
  shows "get_missing_frames fs src_folder local_folder nas_folder cache =
           sorted_list_of_set (sourceBasenames fs src_folder -
             spec_completed fs local_folder nas_folder cache)"
proof -
  have "spec_completed fs local_folder nas_folder cache =
      get_valid_output_basenames fs local_folder \<union>
        (if falsy nas_folder then {}
         else case cache of
                Some c \<Rightarrow> c
              | None \<Rightarrow> get_valid_output_basenames fs nas_folder)"
    using assms by (auto simp: spec_completed_def get_valid_falsy split: option.splits)
  then show ?thesis
    by (simp add: get_missing_frames_eq)
qed

lemma analyze_folder_missing:
  assumes "analyze_folder input_folder w = (w3, out_local, missing_files)"
  shows "missing_files =
           sorted_list_of_set (sourceBasenames (disk w3) input_folder -
             spec_completed (disk w3) (output_folder_local (mon w3))
               (output_folder_nas (mon w3)) (nas_cache_basenames (mon w3)))"
proof -
  define out where "out = replace input_folder ''INPUT_AI'' ''UPSCALED''"
  define nas where "nas = nas_output_for_local_output out"
  define cache where "cache = get_valid_output_basenames (disk w3) nas"
  have f: "\<not> falsy nas"
    by (simp add: nas_def nas_output_not_falsy)
  have w3: "output_folder_local (mon w3) = Some out" "output_folder_nas (mon w3) = nas"
      "nas_cache_basenames (mon w3) = Some cache"
      "missing_files = get_missing_frames (disk w3) input_folder (Some out) nas (Some cache)"
    using assms f
    by (auto simp: analyze_folder_def Let_def update_folder_def set_nas_cache_def
          out_def nas_def cache_def)
  show ?thesis
    unfolding w3 using f by (intro get_missing_frames_spec) simp
qed

text \<open>
  Claim C3. \<open>get_missing_frames\<close> returns exactly the source names minus the completed set,
  where the completed set is the union of the local output's valid basenames and the cache
  if one is provided, else the secondary folder's valid basenames; the result is in ascending
  order and without repetition. A cache is provided for a secondary folder: where there is
  no secondary folder, the cache is absent or empty, as in every call the program makes. In
  particular the list the analysis of a folder computes is the source names minus the
  completed set of the folders and the cache then registered.
\<close>

theorem get_missing_frames_resolves:
  "((falsy nas_folder \<longrightarrow> cache = None \<or> cache = Some {}) \<longrightarrow>
      get_missing_frames fs src_folder local_folder nas_folder cache =
        sorted_list_of_set (sourceBasenames fs src_folder -
          spec_completed fs local_folder nas_folder cache))
   \<and> sorted (get_missing_frames fs src_folder local_folder nas_folder cache)
   \<and> distinct (get_missing_frames fs src_folder local_folder nas_folder cache)
   \<and> (case analyze_folder input_folder w of
        (w3, out_local, missing_files) \<Rightarrow>
          missing_files =
            sorted_list_of_set (sourceBasenames (disk w3) input_folder -
              spec_completed (disk w3) (output_folder_local (mon w3))
                (output_folder_nas (mon w3)) (nas_cache_basenames (mon w3))))"
proof -
  have 1: "(falsy nas_folder \<longrightarrow> cache = None \<or> cache = Some {}) \<longrightarrow>
      get_missing_frames fs src_folder local_folder nas_folder cache =
        sorted_list_of_set (sourceBasenames fs src_folder -
          spec_completed fs local_folder nas_folder cache)"
    by (rule impI) (rule get_missing_frames_spec)
  have 2: "sorted (get_missing_frames fs src_folder local_folder nas_folder cache)"
    unfolding get_missing_frames_eq by simp
  have 3: "distinct (get_missing_frames fs src_folder local_folder nas_folder cache)"
    unfolding get_missing_frames_eq by simp
  have 4: "case analyze_folder input_folder w of
        (w3, out_local, missing_files) \<Rightarrow>
          missing_files =
            sorted_list_of_set (sourceBasenames (disk w3) input_folder -
              spec_completed (disk w3) (output_folder_local (mon w3))
                (output_folder_nas (mon w3)) (nas_cache_basenames (mon w3)))"
    by (cases "analyze_folder input_folder w") (simp add: analyze_folder_missing)
  show ?thesis using 1 2 3 4 by (intro conjI)
qed

text \<open>
  Claim C9. The list \<open>get_missing_frames\<close> returns is determined by the contents of the
  source folder, the local output folder and the secondary folder, and by the cache: two
  states that hold the same files there, in whatever order the directories are enumerated,
  give the same list. In particular two calls on an unchanged state agree.
\<close>

theorem get_missing_frames_deterministic:
  assumes "same_contents fs fs' (Some src_folder)"
      and "same_contents fs fs' local_folder"
      and "same_contents fs fs' nas_folder"
  shows "get_missing_frames fs src_folder local_folder nas_folder cache =
         get_missing_frames fs' src_folder local_folder nas_folder cache"
proof -
  have s: "sourceBasenames fs src_folder = sourceBasenames fs' src_folder"
    using assms(1) by (rule same_contents_sources)
  have l: "get_valid_output_basenames fs local_folder = get_valid_output_basenames fs' local_folder"
    using assms(2) by (rule same_contents_valid)
  have n: "get_valid_output_basenames fs nas_folder = get_valid_output_basenames fs' nas_folder"
    using assms(3) by (rule same_contents_valid)
  show ?thesis
    unfolding get_missing_frames_eq s l n by (rule refl)
qed

lemma count_union_eq:
  "count_valid_output_files_union fs local_folder nas_folder cache =
     card (get_valid_output_basenames fs local_folder \<union>
          (if falsy nas_folder then {}
           else case cache of
                  Some c \<Rightarrow> c
                | None \<Rightarrow> get_valid_output_basenames fs nas_folder))"
  by (simp add: count_valid_output_files_union_def Let_def split: option.splits)

text \<open>
  Claim C10. With a cache supplied, the empty one included, neither the missing files nor the
  union count depend on what the secondary folder holds: two states with the same source and
  local output give the same results, whatever else differs.
\<close>

theorem cache_hides_secondary:
  assumes "same_contents fs fs' (Some src_folder)"
      and "same_contents fs fs' local_folder"
  shows "get_missing_frames fs src_folder local_folder nas_folder (Some cache) =
         get_missing_frames fs' src_folder local_folder nas_folder (Some cache)
       \<and> count_valid_output_files_union fs local_folder nas_folder (Some cache) =
         count_valid_output_files_union fs' local_folder nas_folder (Some cache)"
  using assms
  by (simp add: get_missing_frames_eq count_union_eq same_contents_sources
        same_contents_valid [of fs fs' local_folder])

lemma example_sources: "sourceBasenames missing_set_example ''src'' = {''a.png'', ''b.png'', ''c.png''}"
  by (auto simp: sourceBasenames_def missing_set_example_def listdir_def scandir_def
        is_source_name_def endswith_def lower_def lower_char_def)

lemma example_local_valid: "get_valid_output_basenames missing_set_example (Some ''out'') = {''a.png''}"
  by (simp add: get_valid_output_basenames_def missing_set_example_def path_exists_def
        scandir_def is_output_name_def endswith_def lower_def lower_char_def
        MIN_VALID_FILE_SIZE_def splitext_def)

lemma example_secondary_valid: "get_valid_output_basenames missing_set_example (Some ''nas'') = {''b.png''}"
  by (simp add: get_valid_output_basenames_def missing_set_example_def path_exists_def
        scandir_def is_output_name_def endswith_def lower_def lower_char_def
        MIN_VALID_FILE_SIZE_def splitext_def)

lemma sorted_list_c: "sorted_list_of_set {''c.png''} = [''c.png'']"
  by simp

lemma example_difference: "{''a.png'', ''b.png'', ''c.png''} - ({''a.png''} \<union> {''b.png''}) = {''c.png''}"
  by auto

theorem get_missing_frames_resolves_witness:
  "get_missing_frames missing_set_example ''src'' (Some ''out'') (Some ''nas'') None = [''c.png'']"
proof -
  have h: "falsy (Some ''nas'') \<longrightarrow>
      (None :: string set option) = None \<or> (None :: string set option) = Some {}"
    by simp
  have "get_missing_frames missing_set_example ''src'' (Some ''out'') (Some ''nas'') None =
      sorted_list_of_set (sourceBasenames missing_set_example ''src'' -
        spec_completed missing_set_example (Some ''out'') (Some ''nas'') None)"
    using get_missing_frames_resolves
      [where nas_folder = "Some ''nas''" and cache = None and fs = missing_set_example
         and src_folder = "''src''" and local_folder = "Some ''out''", THEN conjunct1] h
    by (rule mp)
  also have "\<dots> = sorted_list_of_set ({''a.png'', ''b.png'', ''c.png''} - ({''a.png''} \<union> {''b.png''}))"
    by (simp only: spec_completed_def example_sources example_local_valid example_secondary_valid option.case)
  also have "\<dots> = [''c.png'']"
    by (simp only: example_difference sorted_list_c)
  finally show ?thesis .
qed

theorem get_missing_frames_deterministic_witness:
  "same_contents missing_set_example missing_set_example_reordered (Some ''src'')
   \<and> same_contents missing_set_example missing_set_example_reordered (Some ''out'')
   \<and> same_contents missing_set_example missing_set_example_reordered (Some ''nas'')
   \<and> missing_set_example ''src'' \<noteq> missing_set_example_reordered ''src''
   \<and> get_missing_frames missing_set_example ''src'' (Some ''out'') (Some ''nas'') None =
       get_missing_frames missing_set_example_reordered ''src'' (Some ''out'') (Some ''nas'') None"
proof -
  have a: "same_contents missing_set_example missing_set_example_reordered (Some ''src'')"
    by (auto simp: same_contents_def missing_set_example_def missing_set_example_reordered_def)
  have b: "same_contents missing_set_example missing_set_example_reordered (Some ''out'')"
    by (simp add: same_contents_def missing_set_example_def missing_set_example_reordered_def)
  have c: "same_contents missing_set_example missing_set_example_reordered (Some ''nas'')"
    by (simp add: same_contents_def missing_set_example_def missing_set_example_reordered_def)
  have d: "missing_set_example ''src'' \<noteq> missing_set_example_reordered ''src''"
    by (simp add: missing_set_example_def missing_set_example_reordered_def)
  note e = get_missing_frames_deterministic [OF a b c, of None]
  show ?thesis using a b c d e by (intro conjI)
qed

theorem cache_hides_secondary_witness:
  "same_contents missing_set_example missing_set_example_empty_nas (Some ''src'')
   \<and> same_contents missing_set_example missing_set_example_empty_nas (Some ''out'')
   \<and> \<not> same_contents missing_set_example missing_set_example_empty_nas (Some ''nas'')
   \<and> get_missing_frames missing_set_example ''src'' (Some ''out'') (Some ''nas'') (Some {}) =
       get_missing_frames missing_set_example_empty_nas ''src'' (Some ''out'') (Some ''nas'') (Some {})
   \<and> count_valid_output_files_union missing_set_example (Some ''out'') (Some ''nas'') (Some {}) =
       count_valid_output_files_union missing_set_example_empty_nas (Some ''out'') (Some ''nas'') (Some {})"
proof -
  have a: "same_contents missing_set_example missing_set_example_empty_nas (Some ''src'')"
    by (simp add: same_contents_def missing_set_example_def missing_set_example_empty_nas_def)
  have b: "same_contents missing_set_example missing_set_example_empty_nas (Some ''out'')"
    by (simp add: same_contents_def missing_set_example_def missing_set_example_empty_nas_def)
  have c: "\<not> same_contents missing_set_example missing_set_example_empty_nas (Some ''nas'')"
    by (simp add: same_contents_def missing_set_example_def missing_set_example_empty_nas_def)
  note e = cache_hides_secondary [OF a b, of "Some ''nas''" "{}"]
  show ?thesis using a b c e [THEN conjunct1] e [THEN conjunct2] by (intro conjI)
qed

section \<open>Partition into batches\<close>

lemma concat_batches_from:
  "total_missing = length xs \<Longrightarrow>
   concat (map (\<lambda>i. slice xs i (i + BATCH_SIZE)) (batch_starts i total_missing)) = drop i xs"
proof (induction i total_missing rule: batch_starts.induct)
  case (1 i total_missing)
  show ?case
  proof (cases "i < total_missing")
    case True
    have "slice xs i (i + BATCH_SIZE) @ drop (i + BATCH_SIZE) xs = drop i xs"
      by (simp add: slice_def add.commute [of i] flip: drop_drop)
    then show ?thesis
      using True 1 by (subst batch_starts.simps) simp
  next
    case False
    then show ?thesis
      using 1(2) by (subst batch_starts.simps) simp
  qed
qed

lemma batch_starts_bound:
  "s \<in> set (batch_starts i total_missing) \<Longrightarrow> s < total_missing"
proof (induction i total_missing rule: batch_starts.induct)
  case (1 i total_missing)
  then show ?case
    by (subst (asm) (2) batch_starts.simps) (auto split: if_splits)
qed

lemma batch_starts_1200: "batch_starts 0 1200 = [0, 500, 1000]"
  by (simp add: batch_starts.simps BATCH_SIZE_def)

text \<open>
  Claim C6. The batches of the sorted list of missing files, concatenated in order, are that
  list; no batch is empty and none is longer than the maximum of 500; 1200 missing files
  make batches of 500, 500 and 200.
\<close>

theorem batches_partition:
  "concat (batches missing_files) = missing_files
   \<and> (\<forall>batch \<in> set (batches missing_files). batch \<noteq> [] \<and> length batch \<le> BATCH_SIZE)
   \<and> BATCH_SIZE = 500
   \<and> (length missing_files = 1200 \<longrightarrow> map length (batches missing_files) = [500, 500, 200])"
proof -
  have 1: "concat (batches missing_files) = missing_files"
    by (simp add: batches_def concat_batches_from)
  have 2: "\<forall>batch \<in> set (batches missing_files). batch \<noteq> [] \<and> length batch \<le> BATCH_SIZE"
    by (auto simp: batches_def slice_def BATCH_SIZE_def dest: batch_starts_bound)
  have 3: "BATCH_SIZE = 500"
    by (simp add: BATCH_SIZE_def)
  have 4: "length missing_files = 1200 \<longrightarrow> map length (batches missing_files) = [500, 500, 200]"
    by (simp add: batches_def batch_starts_1200 slice_def BATCH_SIZE_def)
  show ?thesis using 1 2 3 4 by (intro conjI)
qed

theorem batches_partition_witness:
  "map length (batches (replicate 1200 ''f.png'')) = [500, 500, 200]
   \<and> concat (batches (replicate 1200 ''f.png'')) = replicate 1200 ''f.png''"
proof -
  have h: "length (replicate 1200 ''f.png'') = 1200" by simp
  note t = batches_partition [of "replicate 1200 ''f.png''"]
  have "map length (batches (replicate 1200 ''f.png'')) = [500, 500, 200]"
    using t [THEN conjunct2, THEN conjunct2, THEN conjunct2] h by (rule mp)
  then show ?thesis using t [THEN conjunct1] by (rule conjI)
qed

section \<open>The progress monitor: average, estimate, convergence\<close>

text \<open>
  A tick that finds the local output folder and a clock that has advanced goes through to the
  report.
\<close>

lemma check_progress_tick:
  assumes "output_folder_local state = Some local_folder" and "local_folder \<noteq> []"
      and "path_exists fs local_folder" and "last_check_time d < now"
  shows "check_progress state fs now d =
     (let count = int (count_valid_output_files_union fs (Some local_folder)
                         (output_folder_nas state) (nas_cache_basenames state));
          instant = real_of_int (count - last_count d) / (now - last_check_time d);
          avg = update_avg_speed (avg_speed d) instant;
          rem = (if total_frames state - count < 0 then 0 else total_frames state - count)
      in (\<lparr>avg_speed = Some avg, last_check_time = now, last_count = count\<rparr>,
          Some \<lparr>current_count = count, remaining = rem,
                percentage = (if total_frames state > 0
                              then (real_of_int count / real_of_int (total_frames state)) * 100
                              else 0),
                eta_seconds = (if avg > 1 / 1000 then Some (real_of_int rem / avg) else None),
                reported_speed = avg\<rparr>))"
  using assms by (simp add: check_progress_def Let_def)

text \<open>
  Claim C5, as the code has it. On a tick with no prior average, the average is seeded with
  the instantaneous speed when that speed is positive, and with the floor of 0.1 when it is
  not positive (zero or negative); on a tick with a prior average, the new average is
  \<open>\<alpha> \<cdot> instant + (1 - \<alpha>) \<cdot> avg\<close>, with \<open>\<alpha> = 0.3\<close>.
\<close>

theorem check_progress_average:
  assumes "output_folder_local state = Some local_folder" and "local_folder \<noteq> []"
      and "path_exists fs local_folder" and "last_check_time d < now"
  shows "let count = int (count_valid_output_files_union fs (Some local_folder)
                            (output_folder_nas state) (nas_cache_basenames state));
             instant = real_of_int (count - last_count d) / (now - last_check_time d);
             avg' = avg_speed (fst (check_progress state fs now d))
         in (avg_speed d = None \<and> instant > 0 \<longrightarrow> avg' = Some instant)
          \<and> (avg_speed d = None \<and> instant \<le> 0 \<longrightarrow> avg' = Some (1 / 10))
          \<and> (\<forall>avg. avg_speed d = Some avg \<longrightarrow>
                avg' = Some (EMA_ALPHA * instant + (1 - EMA_ALPHA) * avg))
          \<and> EMA_ALPHA = 3 / 10"
  unfolding check_progress_tick [OF assms] Let_def
  by (intro conjI impI allI) (simp_all add: update_avg_speed_def, simp add: EMA_ALPHA_def)

lemma emptied_example_count:
  "count_valid_output_files_union emptied_fs (Some ''out'') None None = 0"
  by (simp add: count_valid_output_files_union_def get_valid_output_basenames_def emptied_fs_def
        path_exists_def scandir_def falsy_def)

theorem check_progress_average_witness:
  "avg_speed (fst (check_progress emptied_state emptied_fs 10 emptied_daemon)) = Some (1 / 10)"
proof -
  have h1: "output_folder_local emptied_state = Some ''out''" by (simp add: emptied_state_def)
  have h2: "''out'' \<noteq> []" by simp
  have h3: "path_exists emptied_fs ''out''" by (simp add: path_exists_def emptied_fs_def)
  have h4: "last_check_time emptied_daemon < 10" by (simp add: emptied_daemon_def)
  note t = check_progress_average [OF h1 h2 h3 h4]
  have n: "output_folder_nas emptied_state = None" "nas_cache_basenames emptied_state = None"
      "avg_speed emptied_daemon = None" "last_count emptied_daemon = 10"
      "last_check_time emptied_daemon = 0"
    by (simp_all add: emptied_state_def emptied_daemon_def)
  show ?thesis
    using t by (simp add: Let_def n emptied_example_count)
qed

text \<open>
  Claim C5 as stated, with the floor substituted exactly when the instantaneous speed is
  zero, fails on a tick that counts fewer files than the tick before: the instantaneous speed
  is \<open>-1\<close>, not zero, and the average is seeded with the floor.
\<close>

theorem floor_on_negative_speed:
  "avg_speed (fst (check_progress emptied_state emptied_fs 10 emptied_daemon))
     = Some (update_avg_speed None (- 1))
   \<and> update_avg_speed None (- 1) = 1 / 10
   \<and> update_avg_speed None (- 1) \<noteq> - 1
   \<and> (- 1 :: real) \<noteq> 0"
proof -
  have h1: "output_folder_local emptied_state = Some ''out''" by (simp add: emptied_state_def)
  have h3: "path_exists emptied_fs ''out''" by (simp add: path_exists_def emptied_fs_def)
  have h4: "last_check_time emptied_daemon < 10" by (simp add: emptied_daemon_def)
  have n: "output_folder_nas emptied_state = None" "nas_cache_basenames emptied_state = None"
      "avg_speed emptied_daemon = None" "last_count emptied_daemon = 10"
      "last_check_time emptied_daemon = 0"
    by (simp_all add: emptied_state_def emptied_daemon_def)
  have "avg_speed (fst (check_progress emptied_state emptied_fs 10 emptied_daemon))
     = Some (update_avg_speed None (- 1))"
    by (simp add: check_progress_tick [OF h1 _ h3 h4] Let_def n emptied_example_count)
  moreover have "update_avg_speed None (- 1) = 1 / 10"
    by (simp add: update_avg_speed_def)
  moreover have "update_avg_speed None (- 1) \<noteq> - 1"
    by (simp add: update_avg_speed_def)
  ultimately show ?thesis by simp
qed

text \<open>
  Claim C7. On a tick, the remaining count is \<open>max 0 (total - count)\<close>; the percentage is
  \<open>100 \<cdot> count / total\<close>, and 0 when the total is 0; the estimate is \<open>remaining / avg\<close>
  when the average exceeds 0.001 and is absent otherwise. With a total of 100, a count of 40
  and an average of 2 the estimate is 30 seconds.
\<close>

theorem check_progress_report:
  assumes "output_folder_local state = Some local_folder" and "local_folder \<noteq> []"
      and "path_exists fs local_folder" and "last_check_time d < now"
      and "0 \<le> total_frames state"
  shows "\<exists>rep. snd (check_progress state fs now d) = Some rep
       \<and> current_count rep = int (count_valid_output_files_union fs (Some local_folder)
                                  (output_folder_nas state) (nas_cache_basenames state))
       \<and> reported_speed rep = update_avg_speed (avg_speed d)
            (real_of_int (current_count rep - last_count d) / (now - last_check_time d))
       \<and> remaining rep = max 0 (total_frames state - current_count rep)
       \<and> percentage rep = (if total_frames state = 0 then 0
                           else 100 * real_of_int (current_count rep)
                                  / real_of_int (total_frames state))
       \<and> eta_seconds rep = (if reported_speed rep > 1 / 1000
                            then Some (real_of_int (remaining rep) / reported_speed rep)
                            else None)
       \<and> (total_frames state = 100 \<and> current_count rep = 40 \<and> reported_speed rep = 2
            \<longrightarrow> eta_seconds rep = Some 30)"
proof -
  define count where "count = int (count_valid_output_files_union fs (Some local_folder)
                                  (output_folder_nas state) (nas_cache_basenames state))"
  define avg where "avg = update_avg_speed (avg_speed d)
                      (real_of_int (count - last_count d) / (now - last_check_time d))"
  define rem where "rem = (if total_frames state - count < 0 then 0 else total_frames state - count)"
  define rep where "rep =
     \<lparr>current_count = count, remaining = rem,
      percentage = (if total_frames state > 0
                    then (real_of_int count / real_of_int (total_frames state)) * 100 else 0),
      eta_seconds = (if avg > 1 / 1000 then Some (real_of_int rem / avg) else None),
      reported_speed = avg\<rparr>"
  have 1: "snd (check_progress state fs now d) = Some rep"
    unfolding check_progress_tick [OF assms(1-4)] Let_def rep_def rem_def avg_def count_def
    by simp
  have 2: "current_count rep = int (count_valid_output_files_union fs (Some local_folder)
                                  (output_folder_nas state) (nas_cache_basenames state))"
    by (simp add: rep_def count_def)
  have 3: "reported_speed rep = update_avg_speed (avg_speed d)
            (real_of_int (current_count rep - last_count d) / (now - last_check_time d))"
    by (simp add: rep_def avg_def)
  have 4: "remaining rep = max 0 (total_frames state - current_count rep)"
    by (simp add: rep_def rem_def max_def)
  have 5: "percentage rep = (if total_frames state = 0 then 0
                           else 100 * real_of_int (current_count rep)
                                  / real_of_int (total_frames state))"
    using assms(5) by (simp add: rep_def)
  have 6: "eta_seconds rep = (if reported_speed rep > 1 / 1000
                            then Some (real_of_int (remaining rep) / reported_speed rep)
                            else None)"
    by (simp add: rep_def)
  have 7: "total_frames state = 100 \<and> current_count rep = 40 \<and> reported_speed rep = 2
            \<longrightarrow> eta_seconds rep = Some 30"
    unfolding 6 4 by (simp add: max_def)
  show ?thesis
    using 1 2 3 4 5 6 7 by (intro exI [of _ rep] conjI)
qed

lemma inj_on_forty_names: "inj_on (\<lambda>n. replicate n (CHR ''f'') @ ''.png'') A"
proof (rule inj_onI)
  fix x y :: nat
  assume "replicate x (CHR ''f'') @ ''.png'' = replicate y (CHR ''f'') @ ''.png''"
  then have "length (replicate x (CHR ''f'')) = length (replicate y (CHR ''f''))"
    by simp
  then show "x = y" by simp
qed

lemma card_forty_names: "card forty_names = 40"
  unfolding forty_names_def by (simp add: card_image inj_on_forty_names)

lemma eta_example_count:
  "count_valid_output_files_union emptied_fs (Some ''out'') (Some ''nas'') (Some forty_names) = 40"
  by (simp add: count_valid_output_files_union_def get_valid_output_basenames_def emptied_fs_def
        path_exists_def scandir_def falsy_def card_forty_names)

theorem check_progress_report_witness:
  "\<exists>rep. snd (check_progress eta_state emptied_fs 10 eta_daemon) = Some rep
     \<and> current_count rep = 40 \<and> remaining rep = 60 \<and> percentage rep = 40
     \<and> reported_speed rep = 2 \<and> eta_seconds rep = Some 30"
proof -
  have h1: "output_folder_local eta_state = Some ''out''" by (simp add: eta_state_def)
  have h2: "''out'' \<noteq> []" by simp
  have h3: "path_exists emptied_fs ''out''" by (simp add: path_exists_def emptied_fs_def)
  have h4: "last_check_time eta_daemon < 10" by (simp add: eta_daemon_def)
  have h5: "0 \<le> total_frames eta_state" by (simp add: eta_state_def)
  have n: "output_folder_nas eta_state = Some ''nas''"
      "nas_cache_basenames eta_state = Some forty_names"
      "total_frames eta_state = 100"
      "avg_speed eta_daemon = Some 2" "last_count eta_daemon = 20"
      "last_check_time eta_daemon = 0"
    by (simp_all add: eta_state_def eta_daemon_def)
  have u: "update_avg_speed (Some 2) 2 = 2"
    by (simp add: update_avg_speed_def EMA_ALPHA_def)
  from check_progress_report [OF h1 h2 h3 h4 h5]
  obtain rep where r: "snd (check_progress eta_state emptied_fs 10 eta_daemon) = Some rep"
    and c: "current_count rep = int (count_valid_output_files_union emptied_fs (Some ''out'')
                                  (output_folder_nas eta_state) (nas_cache_basenames eta_state))"
    and s: "reported_speed rep = update_avg_speed (avg_speed eta_daemon)
            (real_of_int (current_count rep - last_count eta_daemon) / (10 - last_check_time eta_daemon))"
    and m: "remaining rep = max 0 (total_frames eta_state - current_count rep)"
    and p: "percentage rep = (if total_frames eta_state = 0 then 0
                           else 100 * real_of_int (current_count rep)
                                  / real_of_int (total_frames eta_state))"
    and e: "total_frames eta_state = 100 \<and> current_count rep = 40 \<and> reported_speed rep = 2
            \<longrightarrow> eta_seconds rep = Some 30"
    by blast
  have c': "current_count rep = 40" using c by (simp add: n eta_example_count)
  have s': "reported_speed rep = 2" using s by (simp add: n c' u)
  have m': "remaining rep = 60" using m by (simp add: n c')
  have p': "percentage rep = 40" using p by (simp add: n c')
  have e': "eta_seconds rep = Some 30" using e n(3) c' s' by blast
  show ?thesis using r c' m' p' s' e' by blast
qed

lemma update_avg_speed_distance:
  "update_avg_speed (Some a) v - v = (1 - EMA_ALPHA) * (a - v)"
  by (simp add: update_avg_speed_def algebra_simps)

lemma avg_after_Some:
  "avg_after (Some a) v n - v = (1 - EMA_ALPHA) ^ (Suc n) * (a - v)"
proof (induction n)
  case 0
  show ?case by (simp add: update_avg_speed_distance)
next
  case (Suc n)
  have "avg_after (Some a) v (Suc n) - v = (1 - EMA_ALPHA) * (avg_after (Some a) v n - v)"
    by (simp add: update_avg_speed_distance)
  then show ?case by (simp add: Suc)
qed

lemma avg_after_fixed: "avg_after (Some v) v n = v"
  using avg_after_Some [of v v n] by simp

lemma avg_after_None: "0 < v \<Longrightarrow> avg_after None v n = v"
proof (induction n)
  case 0
  then show ?case by (simp add: update_avg_speed_def)
next
  case (Suc n)
  then show ?case by (simp add: update_avg_speed_def algebra_simps)
qed

lemma avg_after_Some_tendsto: "(\<lambda>n. avg_after (Some a) v n) \<longlonglongrightarrow> v"
proof -
  have "(\<lambda>n. (1 - EMA_ALPHA) ^ n) \<longlonglongrightarrow> 0"
    by (rule LIMSEQ_realpow_zero) (simp_all add: EMA_ALPHA_def)
  then have "(\<lambda>n. (1 - EMA_ALPHA) ^ (Suc n)) \<longlonglongrightarrow> 0"
    by (rule LIMSEQ_Suc)
  then have "(\<lambda>n. v + (1 - EMA_ALPHA) ^ (Suc n) * (a - v)) \<longlonglongrightarrow> v + 0 * (a - v)"
    by (intro tendsto_add tendsto_mult tendsto_const)
  moreover have "avg_after (Some a) v n = v + (1 - EMA_ALPHA) ^ (Suc n) * (a - v)" for n
    using avg_after_Some [of a v n] by simp
  ultimately show ?thesis by simp
qed

text \<open>
  Claim C8. Ticks that all see the same positive instantaneous speed \<open>v\<close> drive the average
  to \<open>v\<close>: whatever the average before, the averages after the ticks converge to \<open>v\<close>, and
  their distance to \<open>v\<close> shrinks by the factor \<open>1 - \<alpha>\<close> with every tick. With no average
  before, the first tick already seeds it with \<open>v\<close>.
\<close>

theorem ema_converges:
  assumes "0 < v"
  shows "(\<lambda>n. avg_after prev v n) \<longlonglongrightarrow> v
       \<and> \<bar>update_avg_speed (Some a) v - v\<bar> = (1 - EMA_ALPHA) * \<bar>a - v\<bar>
       \<and> \<bar>avg_after prev v (Suc n) - v\<bar> = (1 - EMA_ALPHA) * \<bar>avg_after prev v n - v\<bar>
       \<and> \<bar>avg_after (Some a) v n - v\<bar> = (1 - EMA_ALPHA) ^ (Suc n) * \<bar>a - v\<bar>
       \<and> avg_after None v n = v"
proof -
  have pos: "0 \<le> 1 - EMA_ALPHA" by (simp add: EMA_ALPHA_def)
  have 1: "(\<lambda>n. avg_after prev v n) \<longlonglongrightarrow> v"
  proof (cases prev)
    case None
    then show ?thesis using assms by (simp add: avg_after_None)
  next
    case (Some a)
    then show ?thesis by (simp add: avg_after_Some_tendsto)
  qed
  have 2: "\<bar>update_avg_speed (Some a) v - v\<bar> = (1 - EMA_ALPHA) * \<bar>a - v\<bar>"
    using pos by (simp add: update_avg_speed_distance abs_mult)
  have 3: "\<bar>avg_after prev v (Suc n) - v\<bar> = (1 - EMA_ALPHA) * \<bar>avg_after prev v n - v\<bar>"
    using pos by (simp add: update_avg_speed_distance abs_mult)
  have 4: "\<bar>avg_after (Some a) v n - v\<bar> = (1 - EMA_ALPHA) ^ (Suc n) * \<bar>a - v\<bar>"
    using pos by (simp only: avg_after_Some abs_mult abs_of_nonneg zero_le_power)
  have 5: "avg_after None v n = v"
    using assms by (rule avg_after_None)
  show ?thesis using 1 2 3 4 5 by (intro conjI)
qed

theorem ema_converges_witness:
  "(0 :: real) < 2
   \<and> (\<lambda>n. avg_after (Some 0) 2 n) \<longlonglongrightarrow> 2
   \<and> \<bar>avg_after (Some 0) 2 1 - 2\<bar> = (1 - EMA_ALPHA) * \<bar>avg_after (Some 0) 2 0 - 2\<bar>
   \<and> avg_after (Some 0) 2 0 = 3 / 5"
proof -
  have h: "(0 :: real) < 2" by simp
  note t = ema_converges [OF h, of "Some 0" 0 0]
  have a: "avg_after (Some 0) 2 0 = 3 / 5"
    by (simp add: update_avg_speed_def EMA_ALPHA_def)
  have b: "\<bar>avg_after (Some 0) 2 1 - 2\<bar> = (1 - EMA_ALPHA) * \<bar>avg_after (Some 0) 2 0 - 2\<bar>"
    using t [THEN conjunct2, THEN conjunct2, THEN conjunct1] by simp
  show ?thesis using h t [THEN conjunct1] b a by (intro conjI)
qed

section \<open>Cleaning up: what is removed\<close>

lemma purge_purge:
  "purge_incomplete A (purge_incomplete B es) = purge_incomplete (A \<union> B) es"
  by (auto simp: purge_incomplete_def intro: filter_cong)

lemma purge_empty: "purge_incomplete {} es = es"
  by (simp add: purge_incomplete_def)

lemma distinct_purge:
  "distinct (map fst es) \<Longrightarrow> distinct (map fst (purge_incomplete A es))"
  by (simp add: purge_incomplete_def distinct_map_filter)

lemma purge_absent:
  "n \<notin> fst ` set es \<Longrightarrow> purge_incomplete {n} es = es"
  by (induction es) (auto simp: purge_incomplete_def)

lemma purge_complete:
  assumes "distinct (map fst es)" and "map_of es n = Some sz" and "\<not> sz < MIN_VALID_FILE_SIZE"
  shows "purge_incomplete {n} es = es"
proof -
  have "\<not> (fst e \<in> {n} \<and> snd e < MIN_VALID_FILE_SIZE)" if "e \<in> set es" for e
  proof
    assume a: "fst e \<in> {n} \<and> snd e < MIN_VALID_FILE_SIZE"
    then have "(n, snd e) \<in> set es" using that by (cases e) auto
    then have "map_of es n = Some (snd e)" using assms(1) by simp
    then show False using assms(2,3) a by simp
  qed
  then show ?thesis by (simp add: purge_incomplete_def)
qed

lemma purge_incomplete_one:
  assumes "distinct (map fst es)" and "map_of es n = Some sz" and "sz < MIN_VALID_FILE_SIZE"
  shows "filter (\<lambda>e. fst e \<noteq> n) es = purge_incomplete {n} es"
  unfolding purge_incomplete_def
proof (rule filter_cong [OF refl])
  fix e assume e: "e \<in> set es"
  show "(fst e \<noteq> n) = (\<not> (fst e \<in> {n} \<and> snd e < MIN_VALID_FILE_SIZE))"
  proof (cases "fst e = n")
    case True
    then have "(n, snd e) \<in> set es" using e by (cases e) auto
    then have "map_of es n = Some (snd e)" using assms(1) by simp
    then show ?thesis using True assms(2,3) by simp
  next
    case False
    then show ?thesis by simp
  qed
qed

lemma purge_within:
  assumes "A \<subseteq> {n}" and "purge_incomplete {n} es = es"
  shows "purge_incomplete A es = es"
proof -
  have "A = {} \<or> A = {n}" using assms(1) by blast
  then show ?thesis using assms(2) by (auto simp: purge_empty)
qed

text \<open>
  The inner loop over the extensions, in a directory that exists: the entries that go are
  those of the names tried that are below the threshold and can be removed.
\<close>

lemma cleanup_exts_purges:
  assumes "fs out = Some es" and "distinct (map fst es)"
  shows "fst (cleanup_exts und out b exts (fs, removed)) =
           fs(out := Some (purge_incomplete
                             {n \<in> (\<lambda>ext. b @ ext) ` set exts. \<not> und out n} es))"
  using assms
proof (induction exts arbitrary: fs es removed)
  case Nil
  then show ?case by (simp add: purge_empty fun_upd_idem)
next
  case (Cons ext exts)
  let ?n = "b @ ext"
  let ?X = "{n \<in> {?n}. \<not> und out n}"
  have U: "{n \<in> (\<lambda>ext. b @ ext) ` set (ext # exts). \<not> und out n} =
           {n \<in> (\<lambda>ext. b @ ext) ` set exts. \<not> und out n} \<union> ?X"
    by auto
  have step: "purge_incomplete {n \<in> (\<lambda>ext. b @ ext) ` set (ext # exts). \<not> und out n} es =
        purge_incomplete {n \<in> (\<lambda>ext. b @ ext) ` set exts. \<not> und out n}
          (purge_incomplete ?X es)"
    by (simp only: U purge_purge)
  have X: "?X \<subseteq> {?n}" by blast
  note IH = Cons.IH [of fs es removed, OF Cons.prems]
  show ?case
  proof (cases "file_exists fs out ?n")
    case False
    then have "?n \<notin> fst ` set es"
      using Cons.prems(1) by (simp add: file_exists_def listdir_def scandir_def)
    then have "purge_incomplete {?n} es = es" by (rule purge_absent)
    then have "purge_incomplete ?X es = es" by (rule purge_within [OF X])
    then show ?thesis
      using False IH step by simp
  next
    case True
    then have "?n \<in> fst ` set es"
      using Cons.prems(1) by (simp add: file_exists_def listdir_def scandir_def)
    then obtain sz where sz: "map_of es ?n = Some sz"
      by (metis domD domI dom_map_of_conv_image_fst)
    then have g: "getsize fs out ?n = Some sz"
      using Cons.prems(1) by (simp add: getsize_def scandir_def)
    show ?thesis
    proof (cases "sz < MIN_VALID_FILE_SIZE")
      case False
      have "purge_incomplete {?n} es = es"
        using Cons.prems(2) sz False by (rule purge_complete)
      then have "purge_incomplete ?X es = es" by (rule purge_within [OF X])
      then show ?thesis
        using True g False IH step by simp
    next
      case small: True
      show ?thesis
      proof (cases "und out ?n")
        case held: True
        then have "os_remove und fs out ?n = None"
          by (simp add: os_remove_def)
        moreover have "?X = {}"
          using held by auto
        then have "purge_incomplete ?X es = es"
          by (simp only: purge_empty)
        ultimately show ?thesis
          using True g small IH step by simp
      next
        case free: False
        let ?fs1 = "remove_file fs out ?n"
        have o: "os_remove und fs out ?n = Some ?fs1"
          using free True by (simp add: os_remove_def)
        have "?X = {?n}" using free by auto
        then have r: "?fs1 = fs(out := Some (purge_incomplete ?X es))"
          using Cons.prems(1) purge_incomplete_one [OF Cons.prems(2) sz small]
          by (simp add: remove_file_def)
        have "fst (cleanup_exts und out b exts (?fs1, removed + 1)) =
             ?fs1(out := Some (purge_incomplete
                                 {n \<in> (\<lambda>ext. b @ ext) ` set exts. \<not> und out n}
                                 (purge_incomplete ?X es)))"
          by (rule Cons.IH) (simp_all add: r distinct_purge Cons.prems(2))
        then show ?thesis
          using True g small o step r by simp
      qed
    qed
  qed
qed

lemma cleanup_batch_purges:
  assumes "fs out = Some es" and "distinct (map fst es)"
  shows "fst (cleanup_batch und out batch_files (fs, removed)) =
           fs(out := Some (purge_incomplete
                             {n \<in> batch_outputs batch_files. \<not> und out n} es))"
  using assms
proof (induction batch_files arbitrary: fs es removed)
  case Nil
  then show ?case by (simp add: batch_outputs_def purge_empty fun_upd_idem)
next
  case (Cons filename batch_files)
  let ?b = "fst (splitext filename)"
  let ?A = "{n \<in> {?b @ ''.png'', ?b @ ''.jpg''}. \<not> und out n}"
  obtain fs1 r1 where c: "cleanup_exts und out ?b [''.png'', ''.jpg''] (fs, removed) = (fs1, r1)"
    by (cases "cleanup_exts und out ?b [''.png'', ''.jpg''] (fs, removed)")
  have "fst (cleanup_exts und out ?b [''.png'', ''.jpg''] (fs, removed)) =
          fs(out := Some (purge_incomplete
                            {n \<in> (\<lambda>ext. ?b @ ext) ` set [''.png'', ''.jpg'']. \<not> und out n} es))"
    using Cons.prems by (rule cleanup_exts_purges)
  moreover have "{n \<in> (\<lambda>ext. ?b @ ext) ` set [''.png'', ''.jpg'']. \<not> und out n} = ?A"
    by auto
  ultimately have fs1: "fs1 = fs(out := Some (purge_incomplete ?A es))"
    using c by simp
  have "fst (cleanup_batch und out batch_files (fs1, r1)) =
          fs1(out := Some (purge_incomplete {n \<in> batch_outputs batch_files. \<not> und out n}
                             (purge_incomplete ?A es)))"
    by (rule Cons.IH) (simp_all add: fs1 distinct_purge Cons.prems(2))
  moreover have "{n \<in> batch_outputs batch_files. \<not> und out n} \<union> ?A =
      {n \<in> batch_outputs (filename # batch_files). \<not> und out n}"
    by (auto simp: batch_outputs_def)
  ultimately show ?case
    using c by (simp add: fs1 purge_purge)
qed

lemma cleanup_incomplete_files_purges:
  assumes "\<And>es. fs out = Some es \<Longrightarrow> distinct (map fst es)" and "out \<noteq> []"
  shows "fst (cleanup_incomplete_files und fs (Some out) batch_files) =
           fs(out := map_option
                (purge_incomplete {n \<in> batch_outputs batch_files. \<not> und out n}) (fs out))"
proof (cases "fs out")
  case None
  then show ?thesis
    by (simp add: cleanup_incomplete_files_def path_exists_def fun_upd_idem)
next
  case (Some es)
  then show ?thesis
    using assms cleanup_batch_purges [of fs out es und batch_files 0]
    by (simp add: cleanup_incomplete_files_def path_exists_def)
qed

text \<open>One removal in the staging area, passed over where it raises.\<close>

lemma os_remove_or_pass:
  "(case os_remove und fs folder f of Some fs' \<Rightarrow> fs' | None \<Rightarrow> fs) =
     fs(folder := map_option (filter (\<lambda>e. fst e \<noteq> f \<or> und folder f)) (fs folder))"
proof (cases "fs folder")
  case None
  then show ?thesis
    by (simp add: os_remove_def file_exists_def listdir_def scandir_def fun_upd_idem)
next
  case (Some es)
  show ?thesis
  proof (cases "und folder f")
    case True
    then show ?thesis using Some by (simp add: os_remove_def fun_upd_idem)
  next
    case free: False
    show ?thesis
    proof (cases "file_exists fs folder f")
      case True
      then show ?thesis using Some free by (simp add: os_remove_def remove_file_def)
    next
      case False
      then have "filter (\<lambda>e. fst e \<noteq> f) es = es"
        using Some by (auto simp: file_exists_def listdir_def scandir_def filter_id_conv)
      then show ?thesis using Some free False by (simp add: os_remove_def fun_upd_idem)
    qed
  qed
qed

lemma fold_os_remove:
  "fold (\<lambda>f fs'. case os_remove und fs' folder f of Some fs'' \<Rightarrow> fs'' | None \<Rightarrow> fs') names fs =
     fs(folder := map_option (filter (\<lambda>e. fst e \<notin> set names \<or> und folder (fst e)))
                    (fs folder))"
  unfolding os_remove_or_pass
proof (induction names arbitrary: fs)
  case Nil
  show ?case by (cases "fs folder") (simp_all add: fun_upd_idem)
next
  case (Cons n names)
  let ?fs1 = "fs(folder := map_option (filter (\<lambda>e. fst e \<noteq> n \<or> und folder n)) (fs folder))"
  have "fold (\<lambda>f fs'. fs'(folder := map_option (filter (\<lambda>e. fst e \<noteq> f \<or> und folder f))
                                       (fs' folder)))
          (n # names) fs =
      ?fs1(folder := map_option (filter (\<lambda>e. fst e \<notin> set names \<or> und folder (fst e)))
                       (?fs1 folder))"
    unfolding fold_simps by (rule Cons)
  also have "\<dots> = fs(folder := map_option
                      (filter (\<lambda>e. fst e \<notin> set (n # names) \<or> und folder (fst e))) (fs folder))"
  proof (cases "fs folder")
    case None
    then show ?thesis by simp
  next
    case (Some es)
    have "filter (\<lambda>e. fst e \<notin> set names \<or> und folder (fst e))
            (filter (\<lambda>e. fst e \<noteq> n \<or> und folder n) es) =
          filter (\<lambda>e. fst e \<notin> set (n # names) \<or> und folder (fst e)) es"
      unfolding filter_filter by (rule filter_cong) auto
    then show ?thesis using Some by simp
  qed
  finally show ?case .
qed

lemma cleanup_staging_keeps:
  "cleanup_staging und fs folder =
     fs(folder := map_option (filter (\<lambda>e. und folder (fst e))) (fs folder))"
proof (cases "fs folder")
  case None
  then show ?thesis by (simp add: cleanup_staging_def path_exists_def fun_upd_idem)
next
  case (Some es)
  have "filter (\<lambda>e. fst e \<notin> set (map fst es) \<or> und folder (fst e)) es =
        filter (\<lambda>e. und folder (fst e)) es"
    by (rule filter_cong) auto
  then show ?thesis
    using Some
    by (simp add: cleanup_staging_def path_exists_def fold_os_remove listdir_def scandir_def)
qed

text \<open>
  The disk after a shutdown with a batch in flight, whatever can or cannot be removed: in
  the staging area the files stay that cannot be removed; in the local output folder the
  entries go that bear an output name of the batch, are below the threshold and can be
  removed; nothing else changes.
\<close>

lemma graceful_shutdown_disk:
  assumes "current_batch (mon w) \<noteq> []"
      and "output_folder_local (mon w) = Some out" and "out \<noteq> []" and "out \<noteq> staging_dir"
      and "disk w out = Some es" and "distinct (map fst es)"
  shows "disk (fst (graceful_shutdown w)) =
           (disk w)
             (staging_dir := map_option (filter (\<lambda>e. undeletable w staging_dir (fst e)))
                               (disk w staging_dir),
              out := Some (purge_incomplete
                             {n \<in> batch_outputs (current_batch (mon w)). \<not> undeletable w out n}
                             es))"
proof -
  let ?batch = "current_batch (mon w)"
  let ?und = "undeletable w"
  let ?fs1 = "cleanup_staging ?und (disk w) staging_dir"
  have s: "?fs1 = (disk w)(staging_dir := map_option (filter (\<lambda>e. ?und staging_dir (fst e)))
                                            (disk w staging_dir))"
    by (rule cleanup_staging_keeps)
  have o: "?fs1 out = Some es"
    using assms(4,5) by (simp add: s)
  have d: "\<And>es'. ?fs1 out = Some es' \<Longrightarrow> distinct (map fst es')"
    using o assms(6) by simp
  have c: "fst (cleanup_incomplete_files ?und ?fs1 (Some out) ?batch) =
      ?fs1(out := map_option (purge_incomplete {n \<in> batch_outputs ?batch. \<not> ?und out n})
                    (?fs1 out))"
    using d assms(3) by (rule cleanup_incomplete_files_purges)
  have "disk (fst (graceful_shutdown w)) =
      ?fs1(out := Some (purge_incomplete {n \<in> batch_outputs ?batch. \<not> ?und out n} es))"
    using assms(1,2) c o
    by (cases "current_process w"; cases "the (current_process w)")
       (simp_all add: graceful_shutdown_def Let_def)
  then show ?thesis by (simp only: s)
qed

text \<open>
  Claim C2. A shutdown with a batch in flight cleans the local output folder only. There, an
  entry is removed exactly when its name is the output name of a file of the batch, under
  \<open>.png\<close> or \<open>.jpg\<close>, and its size is below the threshold: entries of at least the
  threshold stay, and so do entries that belong to no file of the batch. Every other folder
  but the staging area, the secondary location among them, is left as it was; the staging
  area is emptied, the running flag cleared, and the exit status is 0. The local output
  folder is taken to be a directory whose entries have distinct names, other than the staging
  area, and the operating system is taken to allow the removals: of the entries to be
  removed in the local output folder, and, for the staging area to end empty, of the staged
  files. (The cleanup is best effort: a file whose removal fails is logged and stays, as
  \<open>graceful_shutdown_disk\<close> says.)
\<close>

theorem graceful_shutdown_cleans_local_only:
  assumes "current_batch (mon w) \<noteq> []"
      and "output_folder_local (mon w) = Some out" and "out \<noteq> []" and "out \<noteq> staging_dir"
      and "disk w out = Some es" and "distinct (map fst es)"
      and "\<forall>e \<in> set es. fst e \<in> batch_outputs (current_batch (mon w))
                        \<and> snd e < MIN_VALID_FILE_SIZE \<longrightarrow> \<not> undeletable w out (fst e)"
  shows "disk (fst (graceful_shutdown w)) out =
           Some (filter (\<lambda>e. \<not> (fst e \<in> batch_outputs (current_batch (mon w))
                                   \<and> snd e < MIN_VALID_FILE_SIZE)) es)
       \<and> (\<forall>folder. folder \<noteq> out \<and> folder \<noteq> staging_dir \<longrightarrow>
             disk (fst (graceful_shutdown w)) folder = disk w folder)
       \<and> (\<forall>nas. output_folder_nas (mon w) = Some nas \<and> nas \<noteq> out \<and> nas \<noteq> staging_dir \<longrightarrow>
             disk (fst (graceful_shutdown w)) nas = disk w nas)
       \<and> (\<forall>es'. disk w staging_dir = Some es'
                  \<and> (\<forall>e \<in> set es'. \<not> undeletable w staging_dir (fst e)) \<longrightarrow>
             disk (fst (graceful_shutdown w)) staging_dir = Some [])
       \<and> \<not> running (mon (fst (graceful_shutdown w)))
       \<and> snd (graceful_shutdown w) = 0"
proof -
  let ?batch = "current_batch (mon w)"
  note g = graceful_shutdown_disk [OF assms(1-6)]
  have p: "purge_incomplete {n \<in> batch_outputs ?batch. \<not> undeletable w out n} es =
      filter (\<lambda>e. \<not> (fst e \<in> batch_outputs ?batch \<and> snd e < MIN_VALID_FILE_SIZE)) es"
    unfolding purge_incomplete_def using assms(7) by (intro filter_cong) auto
  have 1: "disk (fst (graceful_shutdown w)) out =
           Some (filter (\<lambda>e. \<not> (fst e \<in> batch_outputs ?batch \<and> snd e < MIN_VALID_FILE_SIZE)) es)"
    by (simp add: g p)
  have 2: "\<forall>folder. folder \<noteq> out \<and> folder \<noteq> staging_dir \<longrightarrow>
             disk (fst (graceful_shutdown w)) folder = disk w folder"
    by (simp add: g)
  have 3: "\<forall>nas. output_folder_nas (mon w) = Some nas \<and> nas \<noteq> out \<and> nas \<noteq> staging_dir \<longrightarrow>
             disk (fst (graceful_shutdown w)) nas = disk w nas"
    by (simp add: g)
  have 4: "\<forall>es'. disk w staging_dir = Some es'
                  \<and> (\<forall>e \<in> set es'. \<not> undeletable w staging_dir (fst e)) \<longrightarrow>
             disk (fst (graceful_shutdown w)) staging_dir = Some []"
    using assms(4) by (auto simp: g filter_empty_conv)
  have 5: "\<not> running (mon (fst (graceful_shutdown w)))"
    by (cases "current_process w"; cases "the (current_process w)")
       (simp_all add: graceful_shutdown_def Let_def)
  have 6: "snd (graceful_shutdown w) = 0"
    by (simp add: graceful_shutdown_def Let_def)
  show ?thesis using 1 2 3 4 5 6 by (intro conjI)
qed

lemma crash_folders_not_staging: "''UPSCALED_zanelli_2'' \<noteq> staging_dir"
    "''Z:/zanelli/OUTPUT_zanelli_2'' \<noteq> staging_dir"
  by (simp_all add: staging_dir_def path_join_def WORK_DIR_def)

theorem graceful_shutdown_cleans_local_only_witness:
  "disk (fst (graceful_shutdown crash_world)) ''UPSCALED_zanelli_2'' = Some [(''x.png'', 60000)]
   \<and> disk (fst (graceful_shutdown crash_world)) ''Z:/zanelli/OUTPUT_zanelli_2''
       = Some [(''z.png'', 70000)]
   \<and> disk (fst (graceful_shutdown crash_world)) staging_dir = Some []"
proof -
  let ?out = "''UPSCALED_zanelli_2''"
  let ?nas = "''Z:/zanelli/OUTPUT_zanelli_2''"
  let ?es = "[(''x.png'', 60000), (''y.png'', 100 :: nat)]"
  have m: "current_batch (mon crash_world) = [''x.png'', ''y.png'']"
      "output_folder_local (mon crash_world) = Some ?out"
      "output_folder_nas (mon crash_world) = Some ?nas"
    by (simp_all add: crash_world_def)
  have u: "undeletable crash_world = (\<lambda>folder name. False)"
    by (simp add: crash_world_def)
  have k: "disk crash_world ?out = Some ?es"
      "disk crash_world ?nas = Some [(''z.png'', 70000)]"
      "disk crash_world staging_dir = Some [(''x.png'', 9), (''y.png'', 9)]"
    using crash_folders_not_staging by (simp_all add: crash_world_def)
  have h1: "current_batch (mon crash_world) \<noteq> []" by (simp add: m)
  have h3: "?out \<noteq> []" by simp
  have h6: "distinct (map fst ?es)" by simp
  have h7: "\<forall>e \<in> set ?es. fst e \<in> batch_outputs (current_batch (mon crash_world))
                        \<and> snd e < MIN_VALID_FILE_SIZE \<longrightarrow> \<not> undeletable crash_world ?out (fst e)"
    by (simp add: u)
  note t = graceful_shutdown_cleans_local_only
             [of crash_world ?out ?es, OF h1 m(2) h3 crash_folders_not_staging(1) k(1) h6 h7]
  have bo: "batch_outputs [''x.png'', ''y.png''] = {''x.png'', ''x.jpg'', ''y.png'', ''y.jpg''}"
    by (auto simp: batch_outputs_def splitext_def)
  have a: "disk (fst (graceful_shutdown crash_world)) ?out = Some [(''x.png'', 60000)]"
    using t [THEN conjunct1] by (simp add: m bo MIN_VALID_FILE_SIZE_def)
  have "?nas \<noteq> ?out" by simp
  then have b: "disk (fst (graceful_shutdown crash_world)) ?nas = Some [(''z.png'', 70000)]"
    using t [THEN conjunct2, THEN conjunct2, THEN conjunct1] m(3) crash_folders_not_staging(2) k(2)
    by simp
  have c: "disk (fst (graceful_shutdown crash_world)) staging_dir = Some []"
    using t [THEN conjunct2, THEN conjunct2, THEN conjunct2, THEN conjunct1] k(3)
    by (simp add: u)
  show ?thesis using a b c by (intro conjI)
qed

text \<open>
  Where the truncated output cannot be removed, the shutdown leaves it in place, and counts
  no removal.
\<close>

lemma refused_removal_stays:
  "disk (fst (graceful_shutdown crash_world_held)) ''UPSCALED_zanelli_2''
     = Some [(''x.png'', 60000), (''y.png'', 100)]"
proof -
  let ?out = "''UPSCALED_zanelli_2''"
  let ?es = "[(''x.png'', 60000), (''y.png'', 100 :: nat)]"
  have m: "current_batch (mon crash_world_held) = [''x.png'', ''y.png'']"
      "output_folder_local (mon crash_world_held) = Some ?out"
    by (simp_all add: crash_world_held_def crash_world_def)
  have u: "undeletable crash_world_held = (\<lambda>folder name. folder = ?out \<and> name = ''y.png'')"
    by (simp add: crash_world_held_def)
  have k: "disk crash_world_held ?out = Some ?es"
    by (simp add: crash_world_held_def crash_world_def)
  have h1: "current_batch (mon crash_world_held) \<noteq> []" by (simp add: m)
  have h3: "?out \<noteq> []" by simp
  have h6: "distinct (map fst ?es)" by simp
  note g = graceful_shutdown_disk
             [of crash_world_held ?out ?es, OF h1 m(2) h3 crash_folders_not_staging(1) k h6]
  show ?thesis
    by (simp add: g u purge_incomplete_def MIN_VALID_FILE_SIZE_def)
qed

section \<open>The run: when the external transform fails\<close>

text \<open>Once the running flag is cleared, neither loop does anything more.\<close>

lemma process_batches_stopped:
  "\<not> running (mon w) \<Longrightarrow>
     process_batches tr input_folder out_local missing_files starts w = Inr w"
  by (cases starts) simp_all

lemma process_folders_stopped:
  "\<not> running (mon w) \<Longrightarrow> process_folders tr folders w = Inr w"
  by (cases folders) simp_all

text \<open>
  A transform that cannot be launched ends the run: the running flag is cleared, the batch
  stays registered, no further batch of the folder and no further folder is processed.
\<close>

lemma launch_failure_is_fatal:
  assumes "running (mon w)"
      and "stage_batch (undeletable w) input_folder (slice missing_files i (i + BATCH_SIZE))
             (disk w) = Inr staged"
      and "tr staging_dir out_local staged = Launch_failed"
  shows "\<exists>w'. process_batches tr input_folder out_local missing_files (i # starts) w = Inr w'
           \<and> \<not> running (mon w')
           \<and> current_batch (mon w') = slice missing_files i (i + BATCH_SIZE)
           \<and> invoked w' = invoked w @ [slice missing_files i (i + BATCH_SIZE)]
           \<and> process_folders tr folders w' = Inr w'"
  using assms by (simp add: Let_def set_current_batch_def process_folders_stopped)

lemma launch_failure_example:
  "map_sum invoked invoked
     (run_smart_upscaling unlaunchable_transform (initial_world two_folders))
   = Inr [[''a.png'']]"
  by code_simp

text \<open>
  A transform that exits with a code other than zero does not end the run: the code is
  logged, the batch is taken off the register as if it had succeeded, and the next batch
  follows.
\<close>

lemma nonzero_exit_goes_on:
  assumes "running (mon w)"
      and "stage_batch (undeletable w) input_folder (slice missing_files i (i + BATCH_SIZE))
             (disk w) = Inr staged"
      and "tr staging_dir out_local staged = Exited returncode fs'"
  shows "process_batches tr input_folder out_local missing_files (i # starts) w =
           process_batches tr input_folder out_local missing_files starts
             (w\<lparr>disk := unstage_batch (undeletable w)
                          (slice missing_files i (i + BATCH_SIZE)) fs',
                invoked := invoked w @ [slice missing_files i (i + BATCH_SIZE)],
                mon := (mon w)\<lparr>current_batch := []\<rparr>\<rparr>)"
  using assms by (simp add: Let_def set_current_batch_def clear_current_batch_def)

text \<open>
  Claim C1 has it that an invocation of the external transform that ends with a code other
  than zero is fatal for the run, as a failure to launch is. On two input folders with one
  missing file each, and a transform that exits with code 1 on every call, the run starts the
  transform on the batch of the first folder and then, all the same, on the batch of the
  second.
\<close>

theorem nonzero_exit_is_not_fatal:
  "map_sum invoked invoked
     (run_smart_upscaling failing_transform (initial_world two_folders))
   = Inr [[''a.png''], [''b.png'']]"
  by code_simp

end
